theory Spec2Isabelle
  imports Complex_Main "HOL-Library.Word" "HOL-Library.AList" "HOL-Library.Sublist"
begin

section \<open>Strings, bytes and the platform functions\<close>

text \<open>
  A JavaScript string is a sequence of 16-bit code units; \<open>length\<close>, \<open>slice\<close>, \<open>split\<close>
  and \<open>includes\<close> all count code units. A literal of the source is written \<open>js ''...''\<close>
  (every literal of \<^verbatim>\<open>index.ts\<close> but the ellipsis of \<open>truncate\<close> is ASCII).
\<close>

type_synonym jschar = "16 word"
type_synonym jsstring = "jschar list"
type_synonym byte = "8 word"

definition js :: "string \<Rightarrow> jsstring" where
  "js s = map (\<lambda>c. of_nat (of_char c)) s"

definition DOT :: jschar where "DOT = 0x2E"
definition COLON :: jschar where "COLON = 0x3A"
definition COMMA :: jschar where "COMMA = 0x2C"
definition QUOTE :: jschar where "QUOTE = 0x22"
definition NEWLINE :: jschar where "NEWLINE = 0x0A"
definition SLASH :: jschar where "SLASH = 0x2F"
definition ELLIPSIS :: jschar where "ELLIPSIS = 0x2026"

text \<open>\<^verbatim>\<open>s.split(c)\<close> for a one-character separator: never an empty array,
  \<^verbatim>\<open>"".split(".")\<close> is \<^verbatim>\<open>[""]\<close>.\<close>

fun split :: "'a \<Rightarrow> 'a list \<Rightarrow> 'a list list" where
  "split c [] = [[]]"
| "split c (x # xs) =
     (if x = c then [] # split c xs
      else (case split c xs of [] \<Rightarrow> [[x]] | seg # segs \<Rightarrow> (x # seg) # segs))"

text \<open>\<^verbatim>\<open>xs.join(sep)\<close>.\<close>

fun join :: "'a list \<Rightarrow> 'a list list \<Rightarrow> 'a list" where
  "join sep [] = []"
| "join sep [x] = x"
| "join sep (x # y # ys) = x @ sep @ join sep (y # ys)"

text \<open>\<^verbatim>\<open>xs[i]\<close>: \<^verbatim>\<open>undefined\<close> (here \<open>None\<close>) out of range.\<close>

definition index :: "'a list \<Rightarrow> nat \<Rightarrow> 'a option" where
  "index xs i = (if i < length xs then Some (xs ! i) else None)"

text \<open>\<^verbatim>\<open>s.slice(0, e)\<close>: a negative end counts from the end of the string.\<close>

definition slice0 :: "int \<Rightarrow> 'a list \<Rightarrow> 'a list" where
  "slice0 e s =
     (let n = int (length s);
          k = (if e < 0 then max (n + e) 0 else min e n)
      in take (nat k) s)"

text \<open>\<^verbatim>\<open>b.toString(16).padStart(2, "0")\<close> on a byte, and the hexadecimal text of a
  byte array (\<^verbatim>\<open>Array.from(buffer, ...).join("")\<close>).\<close>

definition hexDigit :: "nat \<Rightarrow> jschar" where
  "hexDigit d = (if d < 10 then of_nat (48 + d) else of_nat (87 + d))"

fun toString16 :: "nat \<Rightarrow> jsstring" where
  "toString16 n =
     (if n < 16 then [hexDigit n] else toString16 (n div 16) @ [hexDigit (n mod 16)])"

declare toString16.simps [simp del]

definition padStart :: "nat \<Rightarrow> 'a \<Rightarrow> 'a list \<Rightarrow> 'a list" where
  "padStart n c s = replicate (n - length s) c @ s"

definition hex2 :: "byte \<Rightarrow> jsstring" where
  "hex2 b = padStart 2 0x30 (toString16 (unat b))"

definition toHex :: "byte list \<Rightarrow> jsstring" where
  "toHex bs = concat (map hex2 bs)"

text \<open>
  \<open>randomHex bytes rnd\<close>: \<open>rnd i\<close> is the byte that \<^verbatim>\<open>crypto.getRandomValues\<close> writes at
  index \<open>i\<close> of the fresh buffer of \<open>bytes\<close> bytes.
\<close>

definition randomHex :: "nat \<Rightarrow> (nat \<Rightarrow> byte) \<Rightarrow> jsstring" where
  "randomHex bytes rnd = toHex (map rnd [0..<bytes])"

text \<open>
  \<open>sha256Hex digest input\<close>: \<open>digest\<close> stands for the platform's
  \<^verbatim>\<open>crypto.subtle.digest("SHA-256", new TextEncoder().encode(input))\<close>, a function from the
  string to the digest's bytes; the hexadecimal rendering is the source's.
\<close>

definition sha256Hex :: "(jsstring \<Rightarrow> byte list) \<Rightarrow> jsstring \<Rightarrow> jsstring" where
  "sha256Hex digest input = toHex (digest input)"

text \<open>The decimal text of an integral number, as a template literal renders
  \<^verbatim>\<open>Date.now()\<close> or a byte length.\<close>

fun digits :: "nat \<Rightarrow> jsstring" where
  "digits n =
     (if n < 10 then [of_nat (48 + n)] else digits (n div 10) @ [of_nat (48 + n mod 10)])"

declare digits.simps [simp del]

definition numberToString :: "int \<Rightarrow> jsstring" where
  "numberToString n = (if n < 0 then 0x2D # digits (nat (- n)) else digits (nat n))"

text \<open>
  \<^verbatim>\<open>n += 1\<close> on a number holding a non-negative integer: numbers are IEEE doubles, exact
  below \<open>2^53\<close>; from there on the sum is rounded to the nearest double, ties to even.
\<close>

definition plusOne :: "nat \<Rightarrow> nat" where
  "plusOne n =
     (if n < 2 ^ 53 then n + 1
      else if n < 2 ^ 54 then (if (n div 2) mod 2 = 0 then n else n + 2)
      else n)"


section \<open>Data model\<close>

text \<open>
  An instant is kept as its epoch milliseconds: the source holds the string
  \<^verbatim>\<open>new Date().toISOString()\<close> and reads it back with \<^verbatim>\<open>new Date(s).getTime()\<close>, which
  returns the same milliseconds.
\<close>

type_synonym instant = int

text \<open>
  A value parsed from JSON (the creation payload). A number is a finite one (\<open>JNum\<close>) or,
  when the literal exceeds the range of a double (\<^verbatim>\<open>1e999\<close>, \<^verbatim>\<open>-1e999\<close>), \<^verbatim>\<open>Infinity\<close> or
  \<^verbatim>\<open>-Infinity\<close> (\<open>JInfinity negative\<close>).
\<close>

datatype json =
    JNull
  | JBool bool
  | JNum real
  | JInfinity bool
  | JStr jsstring
  | JArr "json list"
  | JObj "(jsstring \<times> json) list"

text \<open>\<^verbatim>\<open>payload.name\<close>: \<open>None\<close> is \<^verbatim>\<open>undefined\<close> (no such property; a primitive or an array
  has no property \<^verbatim>\<open>label\<close> or \<^verbatim>\<open>metadata\<close>).\<close>

fun getProp :: "json \<Rightarrow> jsstring \<Rightarrow> json option" where
  "getProp (JObj fields) name = map_of fields name"
| "getProp _ name = None"

text \<open>
  What \<^verbatim>\<open>JSON.parse\<close> returns for the text that \<^verbatim>\<open>JSON.stringify\<close> writes for a parsed value:
  a number that is not finite is written \<^verbatim>\<open>null\<close>, at any depth; every other value is read
  back as it was.
\<close>

fun stringified :: "json \<Rightarrow> json" where
  "stringified (JInfinity negative) = JNull"
| "stringified (JArr items) = JArr (map stringified items)"
| "stringified (JObj props) = JObj (map (\<lambda>(k, v). (k, stringified v)) props)"
| "stringified v = v"

record PixelMeta =
  meta_id :: jsstring
  createdAt :: instant
  label :: json
  metadata :: "json option"
  tokenHash :: jsstring
  openCount :: nat
  lastOpenedAt :: "instant option"

text \<open>\<^verbatim>\<open>JSON.stringify(meta)\<close>, read back: the label and the metadata are the two fields that
  hold a parsed value; an absent metadata stays absent.\<close>

definition stringifiedMeta :: "PixelMeta \<Rightarrow> PixelMeta" where
  "stringifiedMeta m =
     m\<lparr> label := stringified (label m), metadata := map_option stringified (metadata m) \<rparr>"

text \<open>The three fields of \<^verbatim>\<open>request.cf\<close> that the source reads, and the \<^verbatim>\<open>geo\<close> object built
  from them; \<open>None\<close> is \<^verbatim>\<open>undefined\<close> or \<^verbatim>\<open>null\<close>.\<close>

record Geo =
  country :: "jsstring option"
  city :: "jsstring option"
  region :: "jsstring option"

record PixelEvent =
  timestamp :: instant
  anonymizedIp :: "jsstring option"
  userAgent :: "jsstring option"
  referer :: "jsstring option"
  language :: "jsstring option"
  geo :: "Geo option"

text \<open>What \<open>sanitizeMeta\<close> returns: every field of \<open>PixelMeta\<close> but \<open>tokenHash\<close>.\<close>

record SafeMeta =
  safe_id :: jsstring
  safe_createdAt :: instant
  safe_label :: json
  safe_metadata :: "json option"
  safe_openCount :: nat
  safe_lastOpenedAt :: "instant option"

record CreateResponse =
  created_id :: jsstring
  created_createdAt :: instant
  pixelUrl :: jsstring
  eventsUrl :: jsstring
  accessToken :: jsstring

text \<open>
  A response body. A JSON body is kept as the value handed to \<^verbatim>\<open>JSON.stringify\<close>.
\<close>

datatype Body =
    NoBody
  | TextBody jsstring
  | BytesBody "byte list"
  | CreatedJson CreateResponse
  | ReportJson SafeMeta "PixelEvent list"

record Response =
  status :: nat
  headers :: "(jsstring \<times> jsstring) list"
  body :: Body

text \<open>
  A request, as far as the handlers read it: the parsed URL (\<open>pathname\<close>, \<open>origin\<close>, the
  query parameters \<open>token\<close> and \<open>format\<close>), the headers by lower-case name, \<^verbatim>\<open>request.cf\<close>
  (\<open>None\<close> when the request has none) and the outcome of \<^verbatim>\<open>request.json()\<close>
  (\<open>None\<close> when it throws).
\<close>

record Request =
  pathname :: jsstring
  origin :: jsstring
  tokenParam :: "jsstring option"
  formatParam :: "jsstring option"
  reqHeaders :: "(jsstring \<times> jsstring) list"
  cf :: "Geo option"
  jsonBody :: "json option"

text \<open>
  One open of a pixel, with what it reads from its environment: the clock of
  \<open>buildEventRecord\<close>, the clock and the random bytes of \<open>storeEvent\<close>, the request, and
  whether the method is \<^verbatim>\<open>HEAD\<close>.
\<close>

record Open =
  o_now :: instant
  o_ms :: int
  o_rnd :: "nat \<Rightarrow> byte"
  o_request :: Request
  o_head :: bool

definition header :: "Request \<Rightarrow> string \<Rightarrow> jsstring option" where
  "header request name = map_of (reqHeaders request) (js name)"


section \<open>The key-value store\<close>

text \<open>
  The store is the in-memory \<open>MemoryKV\<close> of the repository's test: a map in insertion
  order, one entry per key. It holds the JSON text of a value; the model keeps the value
  that \<^verbatim>\<open>JSON.parse\<close> returns for that text: \<open>stringifiedMeta meta\<close> where the source writes
  \<^verbatim>\<open>JSON.stringify(meta)\<close>, and the event itself where it writes \<^verbatim>\<open>JSON.stringify(event)\<close> (the
  fields of an event are strings and \<^verbatim>\<open>null\<close>, which are read back as they were). The handlers
  write a \<open>PixelMeta\<close> only under a \<^verbatim>\<open>meta:\<close> key and a \<open>PixelEvent\<close> only under an \<^verbatim>\<open>events:\<close>
  key.
\<close>

datatype Stored = StoredMeta PixelMeta | StoredEvent PixelEvent

type_synonym KV = "(jsstring \<times> Stored) list"

definition kv_get :: "KV \<Rightarrow> jsstring \<Rightarrow> Stored option" where
  "kv_get store key = map_of store key"

definition kv_put :: "KV \<Rightarrow> jsstring \<Rightarrow> Stored \<Rightarrow> KV" where
  "kv_put store key v = AList.update key v store"

definition kv_list :: "KV \<Rightarrow> jsstring \<Rightarrow> nat \<Rightarrow> jsstring list" where
  "kv_list store pre limit = take limit (filter (prefix pre) (map fst store))"


section \<open>The worker\<close>

definition TRANSPARENT_GIF :: "byte list" where
  "TRANSPARENT_GIF =
     [71, 73, 70, 56, 57, 97, 1, 0, 1, 0, 128, 0, 0, 0, 0, 0, 255, 255, 255, 33,
      249, 4, 1, 0, 0, 0, 0, 44, 0, 0, 0, 0, 1, 0, 1, 0, 0, 2, 2, 68, 1, 0, 59]"

definition eventKeyPrefix :: "jsstring \<Rightarrow> jsstring" where
  "eventKeyPrefix i = js ''events:'' @ i @ js '':''"

definition metaKey :: "jsstring \<Rightarrow> jsstring" where
  "metaKey i = js ''meta:'' @ i"

definition loadMeta :: "KV \<Rightarrow> jsstring \<Rightarrow> PixelMeta option" where
  "loadMeta store i =
     (case kv_get store (metaKey i) of
        Some (StoredMeta m) \<Rightarrow> Some m
      | _ \<Rightarrow> None)"

definition sanitizeMeta :: "PixelMeta \<Rightarrow> SafeMeta" where
  "sanitizeMeta m =
     \<lparr> safe_id = meta_id m, safe_createdAt = createdAt m, safe_label = label m,
       safe_metadata = metadata m, safe_openCount = openCount m,
       safe_lastOpenedAt = lastOpenedAt m \<rparr>"

subsection \<open>Anonymization\<close>

text \<open>The loop of \<open>anonymizeIp\<close>: \<^verbatim>\<open>for (i; i < segments.length; i += 1) segments[i] = "0000"\<close>.\<close>

function zeroFrom :: "nat \<Rightarrow> jsstring list \<Rightarrow> jsstring list" where
  "zeroFrom i segments =
     (if i < length segments then zeroFrom (i + 1) (segments[i := js ''0000'']) else segments)"
  by pat_completeness auto
termination
  by (relation "measure (\<lambda>(i, segments). length segments - i)") auto

declare zeroFrom.simps [simp del]

definition anonymizeIp :: "jsstring option \<Rightarrow> jsstring option" where
  "anonymizeIp ipo =
     (case ipo of
        None \<Rightarrow> None
      | Some ip \<Rightarrow>
          if ip = [] then None
          else if DOT \<in> set ip \<and> length (split DOT ip) = 4
          then Some (join [DOT] ((split DOT ip)[3 := js ''0'']))
          else if COLON \<in> set ip
          then Some (join [COLON]
                 (zeroFrom (nat (max 0 (int (length (split COLON ip)) - 4))) (split COLON ip)))
          else None)"

definition falsy :: "jsstring option \<Rightarrow> bool" where
  "falsy v = (v = None \<or> v = Some [])"

definition sanitizeGeo :: "Geo option \<Rightarrow> Geo option" where
  "sanitizeGeo cfo =
     (case cfo of
        None \<Rightarrow> None
      | Some c \<Rightarrow>
          if falsy (country c) \<and> falsy (city c) \<and> falsy (region c) then None
          else Some \<lparr> country = country c, city = city c, region = region c \<rparr>)"

definition truncate :: "jsstring option \<Rightarrow> int \<Rightarrow> jsstring option" where
  "truncate value mx =
     (if falsy value then None
      else (case value of
              None \<Rightarrow> None
            | Some v \<Rightarrow>
                if int (length v) > mx then Some (slice0 (mx - 1) v @ [ELLIPSIS]) else Some v))"

subsection \<open>Recording an open\<close>

definition buildEventRecord :: "instant \<Rightarrow> Request \<Rightarrow> PixelEvent" where
  "buildEventRecord now request =
     \<lparr> timestamp = now,
       anonymizedIp = anonymizeIp (header request ''cf-connecting-ip''),
       userAgent = truncate (header request ''user-agent'') 256,
       referer = truncate (header request ''referer'') 256,
       language = truncate (header request ''accept-language'') 32,
       geo = sanitizeGeo (cf request) \<rparr>"

text \<open>\<open>storeEvent\<close>: \<open>ms\<close> is \<^verbatim>\<open>Date.now()\<close> and \<open>rnd\<close> the three random bytes.\<close>

definition eventKey :: "jsstring \<Rightarrow> int \<Rightarrow> (nat \<Rightarrow> byte) \<Rightarrow> jsstring" where
  "eventKey i ms rnd = eventKeyPrefix i @ numberToString ms @ js ''-'' @ randomHex 3 rnd"

definition storeEvent :: "int \<Rightarrow> (nat \<Rightarrow> byte) \<Rightarrow> KV \<Rightarrow> jsstring \<Rightarrow> PixelEvent \<Rightarrow> KV" where
  "storeEvent ms rnd store i event = kv_put store (eventKey i ms rnd) (StoredEvent event)"

text \<open>\<^verbatim>\<open>rawId.replace(/\.gif$/i, "")\<close>: the pattern matches at the end of the string only, and
  without the \<^verbatim>\<open>u\<close> flag only the ASCII letters of either case match \<^verbatim>\<open>g\<close>, \<^verbatim>\<open>i\<close>, \<^verbatim>\<open>f\<close>.\<close>

definition isGifSuffix :: "jsstring \<Rightarrow> bool" where
  "isGifSuffix t =
     (case t of
        [a, b, c, d] \<Rightarrow>
          a = DOT \<and> (b = 0x67 \<or> b = 0x47) \<and> (c = 0x69 \<or> c = 0x49) \<and> (d = 0x66 \<or> d = 0x46)
      | _ \<Rightarrow> False)"

definition stripGif :: "jsstring \<Rightarrow> jsstring" where
  "stripGif rawId =
     (if 4 \<le> length rawId \<and> isGifSuffix (drop (length rawId - 4) rawId)
      then take (length rawId - 4) rawId else rawId)"

definition pixelIdOf :: "jsstring \<Rightarrow> jsstring" where
  "pixelIdOf path =
     (let segments = filter (\<lambda>s. s \<noteq> []) (split SLASH path);
          rawId = (case index segments 1 of None \<Rightarrow> [] | Some s \<Rightarrow> s)
      in stripGif rawId)"

definition pixelHeaders :: "(jsstring \<times> jsstring) list" where
  "pixelHeaders =
     [(js ''cache-control'', js ''no-store, must-revalidate''),
      (js ''content-type'', js ''image/gif''),
      (js ''content-length'', numberToString (int (length TRANSPARENT_GIF))),
      (js ''access-control-allow-origin'', js ''*'')]"

text \<open>
  \<open>servePixel\<close>: \<open>now\<close> is the clock read by \<open>buildEventRecord\<close>, \<open>ms\<close> and \<open>rnd\<close> the clock
  and the random bytes read by \<open>storeEvent\<close>. It returns the response and the store; the
  metadata goes back to the store through \<^verbatim>\<open>JSON.stringify\<close>, as in \<open>createPixel\<close>.
\<close>

definition servePixel ::
  "instant \<Rightarrow> int \<Rightarrow> (nat \<Rightarrow> byte) \<Rightarrow> Request \<Rightarrow> bool \<Rightarrow> KV \<Rightarrow> Response \<times> KV" where
  "servePixel now ms rnd request isHead store =
     (let i = pixelIdOf (pathname request);
          store' =
            (case loadMeta store i of
               None \<Rightarrow> store
             | Some m \<Rightarrow>
                 let event = buildEventRecord now request;
                     store1 = storeEvent ms rnd store i event;
                     m' = m\<lparr> openCount := plusOne (openCount m),
                            lastOpenedAt := Some (timestamp event) \<rparr>
                 in kv_put store1 (metaKey i) (StoredMeta (stringifiedMeta m')))
      in (\<lparr> status = 200, headers = pixelHeaders,
            body = (if isHead then NoBody else BytesBody TRANSPARENT_GIF) \<rparr>,
          store'))"

subsection \<open>Creating a pixel\<close>

definition corsHeaders :: "Request \<Rightarrow> (jsstring \<times> jsstring) list" where
  "corsHeaders request =
     [(js ''access-control-allow-origin'',
         (case header request ''origin'' of None \<Rightarrow> js ''*'' | Some v \<Rightarrow> v)),
      (js ''access-control-allow-methods'', js ''GET,HEAD,POST,OPTIONS''),
      (js ''access-control-allow-headers'', js ''x-api-key, content-type'')]"

definition jsonResponse :: "Body \<Rightarrow> nat \<Rightarrow> Request \<Rightarrow> Response" where
  "jsonResponse data st request =
     \<lparr> status = st,
       headers = (js ''content-type'', js ''application/json;charset=utf-8'') # corsHeaders request,
       body = data \<rparr>"

text \<open>\<open>safeJson\<close> returns \<^verbatim>\<open>null\<close> when \<^verbatim>\<open>request.json()\<close> throws; \<^verbatim>\<open>?? {}\<close> then replaces
  \<^verbatim>\<open>null\<close>, also a body that is the JSON text \<^verbatim>\<open>null\<close>, by the empty object.\<close>

definition safeJson :: "Request \<Rightarrow> json" where
  "safeJson request = (case jsonBody request of None \<Rightarrow> JNull | Some v \<Rightarrow> v)"

definition payloadOf :: "Request \<Rightarrow> json" where
  "payloadOf request = (case safeJson request of JNull \<Rightarrow> JObj [] | v \<Rightarrow> v)"

text \<open>
  \<open>createPixel\<close>: \<open>idRnd\<close> and \<open>tokenRnd\<close> are the random bytes of the two \<open>randomHex\<close>
  calls, \<open>now\<close> the clock. The store receives \<^verbatim>\<open>JSON.stringify(meta)\<close>: the metadata as
  \<open>stringifiedMeta\<close> gives it; the response body holds strings only.
\<close>

definition createPixel ::
  "(jsstring \<Rightarrow> byte list) \<Rightarrow> (nat \<Rightarrow> byte) \<Rightarrow> (nat \<Rightarrow> byte) \<Rightarrow> instant \<Rightarrow> Request \<Rightarrow> KV
     \<Rightarrow> Response \<times> KV" where
  "createPixel digest idRnd tokenRnd now request store =
     (let payload = payloadOf request;
          i = randomHex 9 idRnd;
          token = randomHex 16 tokenRnd;
          hash = sha256Hex digest token;
          meta = \<lparr> meta_id = i, createdAt = now,
                   label = (case getProp payload (js ''label'') of
                              None \<Rightarrow> JNull | Some v \<Rightarrow> v),
                   metadata = getProp payload (js ''metadata''),
                   tokenHash = hash, openCount = 0, lastOpenedAt = None \<rparr>;
          store' = kv_put store (metaKey i) (StoredMeta (stringifiedMeta meta));
          responseBody =
            \<lparr> created_id = i, created_createdAt = now,
              pixelUrl = origin request @ js ''/pixel/'' @ i @ js ''.gif'',
              eventsUrl = origin request @ js ''/api/pixels/'' @ i @ js ''?token='' @ token,
              accessToken = token \<rparr>
      in (jsonResponse (CreatedJson responseBody) 201 request, store'))"

text \<open>The token that a creation response returns.\<close>

definition createdToken :: "Response \<Rightarrow> jsstring option" where
  "createdToken response =
     (case body response of CreatedJson r \<Rightarrow> Some (accessToken r) | _ \<Rightarrow> None)"

subsection \<open>Reporting\<close>

text \<open>\<open>loadEvents\<close>: one page of at most 1000 keys, the values that are events, sorted by
  \<^verbatim>\<open>Array.prototype.sort\<close> (stable) on the difference of the timestamps.\<close>

definition loadEvents :: "KV \<Rightarrow> jsstring \<Rightarrow> PixelEvent list" where
  "loadEvents store i =
     (let keys = kv_list store (eventKeyPrefix i) 1000;
          events = List.map_filter
            (\<lambda>k. case kv_get store k of Some (StoredEvent e) \<Rightarrow> Some e | _ \<Rightarrow> None) keys
      in sort_key timestamp events)"

text \<open>\<^verbatim>\<open>value.replace(/"/g, '""')\<close>.\<close>

definition doubleQuotes :: "jsstring \<Rightarrow> jsstring" where
  "doubleQuotes v = concat (map (\<lambda>c. if c = QUOTE then [QUOTE, QUOTE] else [c]) v)"

definition escapeCsv :: "jsstring option \<Rightarrow> jsstring" where
  "escapeCsv value =
     (case value of
        None \<Rightarrow> []
      | Some v \<Rightarrow>
          if v = [] then []
          else
            let escaped = doubleQuotes v
            in if COMMA \<in> set escaped \<or> NEWLINE \<in> set escaped
               then [QUOTE] @ escaped @ [QUOTE] else escaped)"

definition orEmpty :: "jsstring option \<Rightarrow> jsstring" where
  "orEmpty v = (case v of None \<Rightarrow> [] | Some s \<Rightarrow> s)"

definition geoField :: "(Geo \<Rightarrow> jsstring option) \<Rightarrow> PixelEvent \<Rightarrow> jsstring" where
  "geoField f event = (case geo event of None \<Rightarrow> [] | Some g \<Rightarrow> orEmpty (f g))"

definition csvHeaders :: "jsstring list" where
  "csvHeaders =
     [js ''timestamp'', js ''anonymizedIp'', js ''userAgent'', js ''referer'',
      js ''language'', js ''country'', js ''region'', js ''city'']"

text \<open>The row of one event; \<open>isoString\<close> is the text of an instant, the string the source holds
  in \<^verbatim>\<open>event.timestamp\<close>.\<close>

definition csvRow :: "(instant \<Rightarrow> jsstring) \<Rightarrow> PixelEvent \<Rightarrow> jsstring list" where
  "csvRow isoString event =
     [isoString (timestamp event),
      orEmpty (anonymizedIp event),
      escapeCsv (userAgent event),
      escapeCsv (referer event),
      escapeCsv (language event),
      geoField country event,
      geoField region event,
      geoField city event]"

definition buildCsv :: "(instant \<Rightarrow> jsstring) \<Rightarrow> PixelMeta \<Rightarrow> PixelEvent list \<Rightarrow> jsstring" where
  "buildCsv isoString meta events =
     join [NEWLINE] (join [COMMA] csvHeaders # map (\<lambda>event. join [COMMA] (csvRow isoString event)) events)"

definition reportIdOf :: "jsstring \<Rightarrow> jsstring option" where
  "reportIdOf path = index (filter (\<lambda>s. s \<noteq> []) (split SLASH path)) 2"

definition getPixelReport ::
  "(jsstring \<Rightarrow> byte list) \<Rightarrow> (instant \<Rightarrow> jsstring) \<Rightarrow> Request \<Rightarrow> KV \<Rightarrow> Response" where
  "getPixelReport digest isoString request store =
     (case reportIdOf (pathname request) of
        None \<Rightarrow> \<lparr> status = 400, headers = [], body = TextBody (js ''Missing pixel id'') \<rparr>
      | Some i \<Rightarrow>
          (case loadMeta store i of
             None \<Rightarrow> \<lparr> status = 404, headers = [], body = TextBody (js ''Pixel not found'') \<rparr>
           | Some meta \<Rightarrow>
               if falsy (tokenParam request)
                  \<or> sha256Hex digest (orEmpty (tokenParam request)) \<noteq> tokenHash meta
               then \<lparr> status = 401, headers = [], body = TextBody (js ''Unauthorized'') \<rparr>
               else
                 let events = loadEvents store i in
                 if formatParam request = Some (js ''csv'')
                 then \<lparr> status = 200,
                        headers =
                          [(js ''content-type'', js ''text/csv;charset=utf-8''),
                           (js ''content-disposition'',
                              js ''attachment; filename=\"'' @ i @ js ''-events.csv\"'')]
                          @ corsHeaders request,
                        body = TextBody (buildCsv isoString meta events) \<rparr>
                 else jsonResponse (ReportJson (sanitizeMeta meta) events) 200 request))"

text \<open>The body of the report for given metadata and events, in either rendering: the
  CSV text built from the events, or the metadata without its token hash and the events.\<close>

definition reportBody :: "(instant \<Rightarrow> jsstring) \<Rightarrow> Request \<Rightarrow> PixelMeta \<Rightarrow> PixelEvent list \<Rightarrow> Body" where
  "reportBody isoString request meta events =
     (if formatParam request = Some (js ''csv'')
      then TextBody (join [NEWLINE]
             (join [COMMA] csvHeaders # map (\<lambda>event. join [COMMA] (csvRow isoString event)) events))
      else ReportJson
             \<lparr> safe_id = meta_id meta, safe_createdAt = createdAt meta, safe_label = label meta,
               safe_metadata = metadata meta, safe_openCount = openCount meta,
               safe_lastOpenedAt = lastOpenedAt meta \<rparr>
             events)"

subsection \<open>Opens in sequence\<close>

text \<open>\<open>openAll\<close> runs opens one after the other, each on the store the one before left.\<close>

definition openOnce :: "Open \<Rightarrow> KV \<Rightarrow> KV" where
  "openOnce opn store =
     snd (servePixel (o_now opn) (o_ms opn) (o_rnd opn) (o_request opn) (o_head opn) store)"

fun openAll :: "Open list \<Rightarrow> KV \<Rightarrow> KV" where
  "openAll [] store = store"
| "openAll (opn # opns) store = openAll opns (openOnce opn store)"

text \<open>The key under which an open stores its event, and the keys of the store under
  the event prefix of a pixel.\<close>

definition openKey :: "Open \<Rightarrow> jsstring" where
  "openKey opn = eventKey (pixelIdOf (pathname (o_request opn))) (o_ms opn) (o_rnd opn)"

definition eventKeys :: "KV \<Rightarrow> jsstring \<Rightarrow> jsstring list" where
  "eventKeys store i = filter (prefix (eventKeyPrefix i)) (map fst store)"

text \<open>The first non-empty segment of a path, the empty string when there is none.\<close>

definition firstSegment :: "jsstring \<Rightarrow> jsstring" where
  "firstSegment s = (case filter (\<lambda>x. x \<noteq> []) (split SLASH s) of [] \<Rightarrow> [] | x # _ \<Rightarrow> x)"

text \<open>Whether a string ends in \<^verbatim>\<open>.gif\<close>, in any case of the letters.\<close>

definition endsGif :: "jsstring \<Rightarrow> bool" where
  "endsGif s = (4 \<le> length s \<and> isGifSuffix (drop (length s - 4) s))"


section \<open>Reference functions of the specification\<close>

text \<open>
  The functions of this section are not the worker's: they say what the specification
  expects, in its own words, and the worker is compared with them.
\<close>

subsection \<open>Zeroing the last four groups of a colon-separated address\<close>

definition zeroLastGroups :: "jsstring \<Rightarrow> jsstring" where
  "zeroLastGroups ip =
     (let groups = split COLON ip; n = length groups
      in join [COLON] (take (n - 4) groups @ replicate (min 4 n) (js ''0000'')))"

subsection \<open>The CSV reader's rule for one field\<close>



subsection \<open>A CSV reader\<close>








subsection \<open>Occurrence of a string in stored metadata\<close>

text \<open>
  Whether a string occurs in a parsed value: in a string of it, or in a property name of an
  object of it, at any depth. (The text of a number has fewer than 32 characters in a row
  that are hexadecimal digits, so that no token occurs in one.)
\<close>

fun occursJson :: "jsstring \<Rightarrow> json \<Rightarrow> bool" where
  "occursJson t (JStr s) = sublist t s"
| "occursJson t (JArr items) = (\<exists>v \<in> set items. occursJson t v)"
| "occursJson t (JObj props) = (\<exists>(k, v) \<in> set props. sublist t k \<or> occursJson t v)"
| "occursJson t v = False"

definition occursOpt :: "jsstring \<Rightarrow> json option \<Rightarrow> bool" where
  "occursOpt t vo = (case vo of None \<Rightarrow> False | Some v \<Rightarrow> occursJson t v)"

text \<open>
  Whether a string occurs in a \<open>PixelMeta\<close>: in its id, its label, its metadata or its token
  hash. The other fields are two instants, whose ISO texts have 24 or 27 characters, and a
  count.
\<close>

definition occursInMeta :: "jsstring \<Rightarrow> PixelMeta \<Rightarrow> bool" where
  "occursInMeta t m =
     (sublist t (meta_id m) \<or> occursJson t (label m) \<or> occursOpt t (metadata m)
      \<or> sublist t (tokenHash m))"


section \<open>Sample data\<close>

text \<open>
  Concrete values on which the theorems below are instantiated. \<open>toyDigest\<close> stands in
  for the platform's digest there: it returns the low byte of every code unit.
\<close>

definition toyDigest :: "jsstring \<Rightarrow> byte list" where
  "toyDigest s = map ucast s"

definition sampleMeta :: PixelMeta where
  "sampleMeta =
     \<lparr> meta_id = js ''ab'', createdAt = 1000, label = JStr (js ''promo''), metadata = None,
       tokenHash = sha256Hex toyDigest (js ''k''), openCount = 0, lastOpenedAt = None \<rparr>"

definition sampleStore :: KV where
  "sampleStore = [(js ''meta:ab'', StoredMeta sampleMeta)]"

definition sampleRequest :: "string \<Rightarrow> Request" where
  "sampleRequest path =
     \<lparr> pathname = js path, origin = js ''https://pixie.example'', tokenParam = None,
       formatParam = None,
       reqHeaders = [(js ''user-agent'', js ''mail''), (js ''cf-connecting-ip'', js ''203.0.113.42'')],
       cf = None, jsonBody = None \<rparr>"


definition labelledRequest :: Request where
  "labelledRequest =
     (sampleRequest ''/api/pixels'')
       \<lparr> jsonBody := Some (JObj [(js ''label'', JStr (js ''00000000000000000000000000000000''))]) \<rparr>"

definition campaignRequest :: Request where
  "campaignRequest =
     (sampleRequest ''/api/pixels'')
       \<lparr> jsonBody := Some (JObj
           [(js ''label'', JStr (js ''integration-test'')),
            (js ''metadata'',
               JObj [(js ''campaign'', JStr (js ''fall'')), (js ''budget'', JInfinity False)])]) \<rparr>"

definition sampleOpen :: Open where
  "sampleOpen =
     \<lparr> o_now = 2000, o_ms = 2001, o_rnd = (\<lambda>i. 7),
       o_request = sampleRequest ''/pixel/ab.gif'', o_head = False \<rparr>"

definition sampleEventLate :: PixelEvent where
  "sampleEventLate =
     \<lparr> timestamp = 3000, anonymizedIp = Some (js ''203.0.113.0''), userAgent = Some (js ''mail''),
       referer = Some (js ''https://a.example/?q=1,2''), language = None, geo = None \<rparr>"

definition sampleEventEarly :: PixelEvent where
  "sampleEventEarly =
     \<lparr> timestamp = 2000, anonymizedIp = None, userAgent = Some (js ''mail''),
       referer = None, language = Some (js ''en''), geo = None \<rparr>"

definition sampleOpenedMeta :: PixelMeta where
  "sampleOpenedMeta = sampleMeta\<lparr> openCount := 2, lastOpenedAt := Some 3000 \<rparr>"

definition sampleOpenedStore :: KV where
  "sampleOpenedStore =
     [(js ''meta:ab'', StoredMeta sampleOpenedMeta),
      (js ''events:ab:3001-070707'', StoredEvent sampleEventLate),
      (js ''events:ab:2001-070707'', StoredEvent sampleEventEarly)]"

definition sampleReportRequest :: Request where
  "sampleReportRequest = (sampleRequest ''/api/pixels/ab'')\<lparr> tokenParam := Some (js ''k'') \<rparr>"


definition sampleHashEvent :: PixelEvent where
  "sampleHashEvent =
     \<lparr> timestamp = 2000, anonymizedIp = None,
       userAgent = Some (sha256Hex toyDigest (js ''k'')),
       referer = None, language = None, geo = None \<rparr>"

definition sampleHashStore :: KV where
  "sampleHashStore =
     [(js ''meta:ab'', StoredMeta sampleMeta),
      (js ''events:ab:2001-070707'', StoredEvent sampleHashEvent)]"

definition sampleCsvRequest :: Request where
  "sampleCsvRequest =
     (sampleRequest ''/api/pixels/ab'')
       \<lparr> tokenParam := Some (js ''k''), formatParam := Some (js ''csv'') \<rparr>"





section \<open>Properties of the string functions\<close>

lemma split_not_Nil [simp]: "split c s \<noteq> []"
  by (induction s) (auto split: list.splits)

lemma split_no_sep: "c \<notin> set s \<Longrightarrow> split c s = [s]"
  by (induction s) auto

lemma split_append: "c \<notin> set a \<Longrightarrow> split c (a @ c # r) = a # split c r"
  by (induction a) (auto split: list.splits)

lemma split4:
  assumes "c \<notin> set p" "c \<notin> set q" "c \<notin> set r" "c \<notin> set s"
  shows "split c (p @ [c] @ q @ [c] @ r @ [c] @ s) = [p, q, r, s]"
  using assms by (simp add: split_append split_no_sep)

lemma zeroFrom_eq:
  "i \<le> length segments \<Longrightarrow>
   zeroFrom i segments = take i segments @ replicate (length segments - i) (js ''0000'')"
proof (induction i segments rule: zeroFrom.induct)
  case (1 i segments)
  show ?case
  proof (cases "i < length segments")
    case True
    have "zeroFrom i segments = zeroFrom (i + 1) (segments[i := js ''0000''])"
      using True by (simp add: zeroFrom.simps [of i segments])
    also have "\<dots> = take (i + 1) (segments[i := js ''0000''])
                 @ replicate (length segments - (i + 1)) (js ''0000'')"
      using "1.IH" [OF True] True by simp
    also have "take (i + 1) (segments[i := js ''0000'']) = take i segments @ [js ''0000'']"
      using True by (simp add: take_Suc_conv_app_nth)
    also have "(take i segments @ [js ''0000'']) @ replicate (length segments - (i + 1)) (js ''0000'')
       = take i segments @ replicate (length segments - i) (js ''0000'')"
      using True by (simp add: replicate_app_Cons_same Suc_diff_Suc flip: replicate_Suc)
    finally show ?thesis .
  next
    case False
    with "1.prems" have "i = length segments" by simp
    then show ?thesis by (simp add: zeroFrom.simps [of "length segments" segments])
  qed
qed


lemma join_split: "join [c] (split c s) = s"
proof (induction s)
  case Nil
  then show ?case by simp
next
  case (Cons x xs)
  obtain seg segs where sp: "split c xs = seg # segs"
    by (cases "split c xs") auto
  show ?case
  proof (cases "x = c")
    case True
    with Cons sp show ?thesis by simp
  next
    case False
    with Cons sp show ?thesis by (cases segs) auto
  qed
qed

lemma split_single: "split c s = [seg] \<Longrightarrow> seg = s"
  using join_split [of c s] by simp

lemma split_append_nosep:
  "c \<notin> set t \<Longrightarrow> split c (s @ t) = butlast (split c s) @ [last (split c s) @ t]"
proof (induction s)
  case Nil
  then show ?case by (simp add: split_no_sep)
next
  case (Cons x xs)
  obtain seg segs where sp: "split c xs = seg # segs"
    by (cases "split c xs") auto
  show ?case
  proof (cases "x = c")
    case True
    with Cons sp show ?thesis by simp
  next
    case False
    with Cons sp show ?thesis by (cases segs) auto
  qed
qed

lemma suffix_last_join: "xs \<noteq> [] \<Longrightarrow> suffix (last xs) (join sep xs)"
proof (induction sep xs rule: join.induct)
  case (1 sep)
  then show ?case by simp
next
  case (2 sep x)
  show ?case by simp
next
  case (3 sep x y ys)
  then have "suffix (last (y # ys)) (join sep (y # ys))" by simp
  then have "suffix (last (y # ys)) (x @ sep @ join sep (y # ys))"
    by (simp add: suffix_appendI)
  then show ?case by simp
qed

lemma last_split_suffix: "suffix (last (split c s)) s"
  using suffix_last_join [of "split c s" "[c]"] by (simp add: join_split)

lemma split_pixel_path: "split SLASH (js ''/pixel/'' @ s) = [] # js ''pixel'' # split SLASH s"
  by (simp add: js_def SLASH_def)


subsection \<open>Hexadecimal text\<close>

lemma length_toString16: "n < 256 \<Longrightarrow> length (toString16 n) = (if n < 16 then 1 else 2)"
proof -
  assume n: "n < 256"
  show ?thesis
  proof (cases "n < 16")
    case True
    then show ?thesis by (simp add: toString16.simps [of n])
  next
    case False
    with n have "n div 16 < 16" by simp
    then have "toString16 (n div 16) = [hexDigit (n div 16)]"
      by (simp add: toString16.simps [of "n div 16"])
    with False show ?thesis by (simp add: toString16.simps [of n])
  qed
qed

lemma length_hex2 [simp]: "length (hex2 b) = 2"
proof -
  have "unat b < 256" using unsigned_less [of b, where ?'a = nat] by simp
  then show ?thesis by (simp add: hex2_def padStart_def length_toString16)
qed

lemma length_toHex [simp]: "length (toHex bs) = 2 * length bs"
  by (induction bs) (simp_all add: toHex_def)

lemma length_randomHex [simp]: "length (randomHex n rnd) = 2 * n"
  by (simp add: randomHex_def)

lemma randomHex_token_not_in_id: "\<not> sublist (randomHex 16 tokenRnd) (randomHex 9 idRnd)"
proof
  assume "sublist (randomHex 16 tokenRnd) (randomHex 9 idRnd)"
  then have "length (randomHex 16 tokenRnd) \<le> length (randomHex 9 idRnd)"
    by (rule sublist_length_le)
  then show False by simp
qed

lemma hexDigit_ge: "d < 16 \<Longrightarrow> 48 \<le> unat (hexDigit d)"
proof -
  assume d: "d < 16"
  have a: "unat (of_nat (48 + d) :: 16 word) = 48 + d"
    using d by (simp add: unat_of_nat del: of_nat_add)
  have b: "unat (of_nat (87 + d) :: 16 word) = 87 + d"
    using d by (simp add: unat_of_nat del: of_nat_add)
  show ?thesis by (simp add: hexDigit_def a b del: of_nat_add)
qed

lemma toString16_ge:
  assumes "n < 256" "c \<in> set (toString16 n)"
  shows "48 \<le> unat c"
proof (cases "n < 16")
  case True
  with assms(2) show ?thesis by (auto simp: toString16.simps [of n] hexDigit_ge)
next
  case False
  with assms(1) have d: "n div 16 < 16" by simp
  have m: "n mod 16 < 16" by simp
  from d have "toString16 (n div 16) = [hexDigit (n div 16)]"
    by (simp add: toString16.simps [of "n div 16"])
  with False assms(2) have "c = hexDigit (n div 16) \<or> c = hexDigit (n mod 16)"
    by (auto simp: toString16.simps [of n])
  with d m show ?thesis using hexDigit_ge by blast
qed

lemma hex2_ge: "c \<in> set (hex2 b) \<Longrightarrow> 48 \<le> unat c"
proof -
  assume c: "c \<in> set (hex2 b)"
  have "unat b < 256" using unsigned_less [of b, where ?'a = nat] by simp
  with c show ?thesis
    by (auto simp: hex2_def padStart_def dest: toString16_ge)
qed

lemma randomHex_ge: "c \<in> set (randomHex n rnd) \<Longrightarrow> 48 \<le> unat c"
  by (auto simp: randomHex_def toHex_def dest: hex2_ge)

lemma randomHex_no_slash: "SLASH \<notin> set (randomHex n rnd)"
proof
  assume "SLASH \<in> set (randomHex n rnd)"
  then have "48 \<le> unat SLASH" by (rule randomHex_ge)
  then show False by (simp add: SLASH_def)
qed



section \<open>Truncation (claim C9)\<close>





section \<open>Address anonymization (claim C4)\<close>

lemma anonymizeIp_dotted:
  assumes "DOT \<notin> set a" "DOT \<notin> set b" "DOT \<notin> set c" "DOT \<notin> set d"
  shows "anonymizeIp (Some (a @ [DOT] @ b @ [DOT] @ c @ [DOT] @ d))
         = Some (a @ [DOT] @ b @ [DOT] @ c @ [DOT] @ js ''0'')"
  using split4 [OF assms] by (simp add: anonymizeIp_def)

lemma anonymizeIp_colon:
  assumes "COLON \<in> set ip" "length (split DOT ip) \<noteq> 4"
  shows "anonymizeIp (Some ip) = Some (zeroLastGroups ip)"
proof -
  have ne: "ip \<noteq> []" using assms(1) by auto
  let ?g = "split COLON ip"
  have "nat (max 0 (int (length ?g) - 4)) = length ?g - 4" by simp
  moreover have "length ?g - (length ?g - 4) = min 4 (length ?g)" by simp
  ultimately have "zeroFrom (nat (max 0 (int (length ?g) - 4))) ?g
      = take (length ?g - 4) ?g @ replicate (min 4 (length ?g)) (js ''0000'')"
    using zeroFrom_eq [of "length ?g - 4" ?g] by simp
  then show ?thesis
    using assms ne by (simp add: anonymizeIp_def zeroLastGroups_def Let_def)
qed

lemma anonymizeIp_other:
  assumes "COLON \<notin> set ip" "length (split DOT ip) \<noteq> 4"
  shows "anonymizeIp (Some ip) = None"
  using assms by (simp add: anonymizeIp_def)

text \<open>
  Claim C4, as stated, fails. The address \<^verbatim>\<open>::ffff:1.2.3.4\<close> is colon-separated, and
  zeroing its last four groups gives \<^verbatim>\<open>0000:0000:0000:0000\<close>; but it also has exactly four
  dot-separated segments, the dotted branch comes first in \<open>anonymizeIp\<close>, and the result
  is \<^verbatim>\<open>::ffff:1.2.3.0\<close>.
\<close>

theorem anonymizeIp_mapped_counterexample:
  "COLON \<in> set (js ''::ffff:1.2.3.4'')
   \<and> zeroLastGroups (js ''::ffff:1.2.3.4'') = js ''0000:0000:0000:0000''
   \<and> anonymizeIp (Some (js ''::ffff:1.2.3.4'')) = Some (js ''::ffff:1.2.3.0'')
   \<and> anonymizeIp (Some (js ''::ffff:1.2.3.4'')) \<noteq> Some (zeroLastGroups (js ''::ffff:1.2.3.4''))"
  by (simp add: anonymizeIp_def zeroLastGroups_def js_def DOT_def COLON_def Let_def)

text \<open>
  Claim C4, amended. \<open>anonymizeIp\<close> is a function of its argument alone. A missing
  address gives \<^verbatim>\<open>null\<close>. An address \<open>a.b.c.d\<close> of exactly four dot-separated segments gives
  \<open>a.b.c.0\<close>, whatever the segments hold. Every other address that contains a colon gives
  the address with its last four colon-separated groups (all of them when there are
  fewer) replaced by \<^verbatim>\<open>0000\<close>. Every remaining address gives \<^verbatim>\<open>null\<close>.
\<close>

theorem anonymizeIp_policy:
  "anonymizeIp None = None
   \<and> (DOT \<notin> set a \<and> DOT \<notin> set b \<and> DOT \<notin> set c \<and> DOT \<notin> set d \<longrightarrow>
        anonymizeIp (Some (a @ [DOT] @ b @ [DOT] @ c @ [DOT] @ d))
        = Some (a @ [DOT] @ b @ [DOT] @ c @ [DOT] @ js ''0''))
   \<and> (COLON \<in> set ip \<and> length (split DOT ip) \<noteq> 4 \<longrightarrow>
        anonymizeIp (Some ip) = Some (zeroLastGroups ip))
   \<and> (COLON \<notin> set ip' \<and> length (split DOT ip') \<noteq> 4 \<longrightarrow> anonymizeIp (Some ip') = None)"
  using anonymizeIp_dotted [of a b c d] anonymizeIp_colon [of ip] anonymizeIp_other [of ip']
  by (simp add: anonymizeIp_def)

theorem anonymizeIp_policy_witness:
  "DOT \<notin> set (js ''203'') \<and> DOT \<notin> set (js ''0'') \<and> DOT \<notin> set (js ''113'') \<and> DOT \<notin> set (js ''42'')
   \<and> anonymizeIp (Some (js ''203.0.113.42'')) = Some (js ''203.0.113.0'')
   \<and> COLON \<in> set (js ''2001:db8:0:0:8:800:200c:417a'')
   \<and> length (split DOT (js ''2001:db8:0:0:8:800:200c:417a'')) \<noteq> 4
   \<and> anonymizeIp (Some (js ''2001:db8:0:0:8:800:200c:417a''))
       = Some (js ''2001:db8:0:0:0000:0000:0000:0000'')
   \<and> COLON \<notin> set (js ''1.2.3'') \<and> length (split DOT (js ''1.2.3'')) \<noteq> 4
   \<and> anonymizeIp (Some (js ''1.2.3'')) = None"
proof -
  have z: "zeroLastGroups (js ''2001:db8:0:0:8:800:200c:417a'')
           = js ''2001:db8:0:0:0000:0000:0000:0000''"
    by (simp add: zeroLastGroups_def js_def COLON_def Let_def)
  show ?thesis
    using anonymizeIp_policy [of "js ''203''" "js ''0''" "js ''113''" "js ''42''"
        "js ''2001:db8:0:0:8:800:200c:417a''" "js ''1.2.3''"] z
    by (simp add: js_def DOT_def COLON_def)
qed


section \<open>CSV escaping\<close>

lemma doubleQuotes_simps [simp]:
  "doubleQuotes [] = []"
  "doubleQuotes (c # v) = (if c = QUOTE then [QUOTE, QUOTE] else [c]) @ doubleQuotes v"
  by (simp_all add: doubleQuotes_def)






section \<open>The store and the sample data\<close>

lemma kv_get_put_same: "kv_get (kv_put store k v) k = Some v"
  by (simp add: kv_get_def kv_put_def update_conv')

lemma kv_get_put_other: "k' \<noteq> k \<Longrightarrow> kv_get (kv_put store k v) k' = kv_get store k'"
  by (simp add: kv_get_def kv_put_def update_conv')

lemma stringifiedMeta_fields [simp]:
  "meta_id (stringifiedMeta m) = meta_id m"
  "createdAt (stringifiedMeta m) = createdAt m"
  "label (stringifiedMeta m) = stringified (label m)"
  "metadata (stringifiedMeta m) = map_option stringified (metadata m)"
  "tokenHash (stringifiedMeta m) = tokenHash m"
  "openCount (stringifiedMeta m) = openCount m"
  "lastOpenedAt (stringifiedMeta m) = lastOpenedAt m"
  by (simp_all add: stringifiedMeta_def)

lemmas eval_defs = js_def DOT_def COLON_def COMMA_def QUOTE_def NEWLINE_def SLASH_def index_def
  metaKey_def eventKeyPrefix_def loadMeta_def kv_get_def kv_put_def pixelIdOf_def reportIdOf_def
  stripGif_def isGifSuffix_def sampleStore_def sampleRequest_def sampleMeta_def toyDigest_def
  sha256Hex_def toHex_def hex2_def padStart_def toString16.simps hexDigit_def falsy_def orEmpty_def

lemma sample_lookups:
  "loadMeta sampleStore (pixelIdOf (pathname (sampleRequest ''/pixel/ab.gif''))) = Some sampleMeta"
  "loadMeta sampleStore (pixelIdOf (pathname (sampleRequest ''/pixel/zz.gif''))) = None"
  by (simp_all add: eval_defs)



section \<open>The response to an open (claim C5)\<close>

text \<open>
  Claim C5. The response to an open does not depend on the pixel id, on the store or on
  anything else but the method: any two opens with the same method get the same
  response, which is the fixed transparent GIF (no body for \<^verbatim>\<open>HEAD\<close>) under the fixed
  headers; so an open of an id with stored metadata and an open of an id without get
  identical responses. When the id has no stored metadata, the open leaves the store as
  it was.
\<close>

theorem open_response_indistinguishable:
  "fst (servePixel now ms rnd request isHead store)
     = fst (servePixel now' ms' rnd' request' isHead store')
   \<and> fst (servePixel now ms rnd request isHead store)
     = \<lparr> status = 200, headers = pixelHeaders,
         body = (if isHead then NoBody else BytesBody TRANSPARENT_GIF) \<rparr>
   \<and> (loadMeta store (pixelIdOf (pathname request)) = None \<longrightarrow>
        snd (servePixel now ms rnd request isHead store) = store)"
  by (simp add: servePixel_def Let_def)

theorem open_response_indistinguishable_witness:
  "loadMeta sampleStore (pixelIdOf (pathname (sampleRequest ''/pixel/ab.gif''))) = Some sampleMeta
   \<and> loadMeta sampleStore (pixelIdOf (pathname (sampleRequest ''/pixel/zz.gif''))) = None
   \<and> fst (servePixel 2000 2001 (\<lambda>i. 7) (sampleRequest ''/pixel/zz.gif'') False sampleStore)
     = fst (servePixel 2000 2001 (\<lambda>i. 7) (sampleRequest ''/pixel/ab.gif'') False sampleStore)
   \<and> snd (servePixel 2000 2001 (\<lambda>i. 7) (sampleRequest ''/pixel/zz.gif'') False sampleStore)
     = sampleStore"
  using open_response_indistinguishable [of 2000 2001 "\<lambda>i. 7" "sampleRequest ''/pixel/zz.gif''"
      False sampleStore 2000 2001 "\<lambda>i. 7" "sampleRequest ''/pixel/ab.gif''" sampleStore]
    sample_lookups
  by simp



section \<open>An unparseable creation payload (claim C8)\<close>

text \<open>
  Claim C8. When the body of a creation request cannot be parsed as JSON, \<open>createPixel\<close>
  returns the response and the store that it returns for the same request with the empty
  object as body: status 201, the same response body, and a stored \<open>PixelMeta\<close> whose label
  is \<^verbatim>\<open>null\<close> and whose metadata is absent.
\<close>

theorem unparseable_payload_as_empty:
  "jsonBody request = None \<longrightarrow>
     createPixel digest idRnd tokenRnd now request store
       = createPixel digest idRnd tokenRnd now (request\<lparr> jsonBody := Some (JObj []) \<rparr>) store
     \<and> status (fst (createPixel digest idRnd tokenRnd now request store)) = 201
     \<and> kv_get (snd (createPixel digest idRnd tokenRnd now request store))
          (metaKey (randomHex 9 idRnd))
        = Some (StoredMeta
            \<lparr> meta_id = randomHex 9 idRnd, createdAt = now, label = JNull, metadata = None,
              tokenHash = sha256Hex digest (randomHex 16 tokenRnd), openCount = 0,
              lastOpenedAt = None \<rparr>)"
  by (simp add: createPixel_def payloadOf_def safeJson_def Let_def jsonResponse_def
      corsHeaders_def header_def kv_get_put_same stringifiedMeta_def)

theorem unparseable_payload_as_empty_witness:
  "jsonBody (sampleRequest ''/api/pixels'') = None
   \<and> createPixel toyDigest (\<lambda>i. 1) (\<lambda>i. 2) 1000 (sampleRequest ''/api/pixels'') []
       = createPixel toyDigest (\<lambda>i. 1) (\<lambda>i. 2) 1000
           ((sampleRequest ''/api/pixels'')\<lparr> jsonBody := Some (JObj []) \<rparr>) []
   \<and> status (fst (createPixel toyDigest (\<lambda>i. 1) (\<lambda>i. 2) 1000 (sampleRequest ''/api/pixels'') [])) = 201
   \<and> kv_get (snd (createPixel toyDigest (\<lambda>i. 1) (\<lambda>i. 2) 1000 (sampleRequest ''/api/pixels'') []))
        (metaKey (randomHex 9 (\<lambda>i. 1)))
      = Some (StoredMeta
          \<lparr> meta_id = randomHex 9 (\<lambda>i. 1), createdAt = 1000, label = JNull, metadata = None,
            tokenHash = sha256Hex toyDigest (randomHex 16 (\<lambda>i. 2)), openCount = 0,
            lastOpenedAt = None \<rparr>)"
proof -
  have h: "jsonBody (sampleRequest ''/api/pixels'') = None"
    by (simp add: sampleRequest_def)
  from unparseable_payload_as_empty
    [of "sampleRequest ''/api/pixels''" toyDigest "\<lambda>i. 1" "\<lambda>i. 2" 1000 "[]"] h
  show ?thesis by blast
qed



section \<open>A report request with a bad token (claim C1)\<close>

lemma report_unauthorized:
  assumes "reportIdOf (pathname request) = Some i" "loadMeta store i = Some meta"
    "falsy (tokenParam request) \<or> sha256Hex digest (orEmpty (tokenParam request)) \<noteq> tokenHash meta"
  shows "getPixelReport digest isoString request store
         = \<lparr> status = 401, headers = [], body = TextBody (js ''Unauthorized'') \<rparr>"
  using assms by (auto simp: getPixelReport_def)

lemma report_not_found:
  assumes "reportIdOf (pathname request) = Some i" "loadMeta store i = None"
  shows "getPixelReport digest isoString request store
         = \<lparr> status = 404, headers = [], body = TextBody (js ''Pixel not found'') \<rparr>"
  using assms by (simp add: getPixelReport_def)

lemma report_no_id:
  assumes "reportIdOf (pathname request) = None"
  shows "getPixelReport digest isoString request store
         = \<lparr> status = 400, headers = [], body = TextBody (js ''Missing pixel id'') \<rparr>"
  using assms by (simp add: getPixelReport_def)

text \<open>
  Claim C1, as stated, fails. A report request without a token for an id that has no
  \<open>PixelMeta\<close> in the store is answered 404 (not found), not 401: \<open>getPixelReport\<close> loads
  the metadata, and returns 404 when there is none, before it looks at the token.
\<close>

theorem report_missing_pixel_counterexample:
  "reportIdOf (pathname (sampleRequest ''/api/pixels/zz'')) = Some (js ''zz'')
   \<and> loadMeta sampleStore (js ''zz'') = None
   \<and> tokenParam (sampleRequest ''/api/pixels/zz'') = None
   \<and> status (getPixelReport toyDigest numberToString (sampleRequest ''/api/pixels/zz'') sampleStore) = 404
   \<and> status (getPixelReport toyDigest numberToString (sampleRequest ''/api/pixels/zz'') sampleStore) \<noteq> 401"
  by (simp add: getPixelReport_def eval_defs)

text \<open>
  Claim C1, amended. When the path names a pixel id and a \<open>PixelMeta\<close> is stored for it,
  a report request whose token is missing, empty, or hashes to another value than the
  stored \<open>tokenHash\<close> is answered 401 (unauthorized). When no \<open>PixelMeta\<close> is stored for the
  id the answer is 404, whatever the token; when the path names no id it is 400.
\<close>

theorem report_bad_token:
  "(reportIdOf (pathname request) = Some i \<and> loadMeta store i = Some meta
      \<and> (falsy (tokenParam request)
          \<or> sha256Hex digest (orEmpty (tokenParam request)) \<noteq> tokenHash meta)
     \<longrightarrow> getPixelReport digest isoString request store
         = \<lparr> status = 401, headers = [], body = TextBody (js ''Unauthorized'') \<rparr>)
   \<and> (reportIdOf (pathname request) = Some i \<and> loadMeta store i = None
     \<longrightarrow> getPixelReport digest isoString request store
         = \<lparr> status = 404, headers = [], body = TextBody (js ''Pixel not found'') \<rparr>)
   \<and> (reportIdOf (pathname request) = None
     \<longrightarrow> getPixelReport digest isoString request store
         = \<lparr> status = 400, headers = [], body = TextBody (js ''Missing pixel id'') \<rparr>)"
  using report_unauthorized [of request i store meta digest isoString]
    report_not_found [of request i store digest isoString]
    report_no_id [of request digest isoString store]
  by blast

theorem report_bad_token_witness:
  "(reportIdOf (pathname (sampleRequest ''/api/pixels/ab'')) = Some (js ''ab'')
    \<and> loadMeta sampleStore (js ''ab'') = Some sampleMeta
    \<and> falsy (tokenParam (sampleRequest ''/api/pixels/ab'')))
   \<and> getPixelReport toyDigest numberToString (sampleRequest ''/api/pixels/ab'') sampleStore
       = \<lparr> status = 401, headers = [], body = TextBody (js ''Unauthorized'') \<rparr>
   \<and> (reportIdOf (pathname ((sampleRequest ''/api/pixels/ab'')\<lparr> tokenParam := Some (js ''guess'') \<rparr>))
        = Some (js ''ab'')
      \<and> sha256Hex toyDigest
           (orEmpty (tokenParam ((sampleRequest ''/api/pixels/ab'')\<lparr> tokenParam := Some (js ''guess'') \<rparr>)))
         \<noteq> tokenHash sampleMeta)
   \<and> getPixelReport toyDigest numberToString
         ((sampleRequest ''/api/pixels/ab'')\<lparr> tokenParam := Some (js ''guess'') \<rparr>) sampleStore
       = \<lparr> status = 401, headers = [], body = TextBody (js ''Unauthorized'') \<rparr>
   \<and> (reportIdOf (pathname (sampleRequest ''/api/pixels/zz'')) = Some (js ''zz'')
      \<and> loadMeta sampleStore (js ''zz'') = None)
   \<and> getPixelReport toyDigest numberToString (sampleRequest ''/api/pixels/zz'') sampleStore
       = \<lparr> status = 404, headers = [], body = TextBody (js ''Pixel not found'') \<rparr>
   \<and> reportIdOf (pathname (sampleRequest ''/api/pixels/'')) = None
   \<and> getPixelReport toyDigest numberToString (sampleRequest ''/api/pixels/'') sampleStore
       = \<lparr> status = 400, headers = [], body = TextBody (js ''Missing pixel id'') \<rparr>"
proof -
  have a: "reportIdOf (pathname (sampleRequest ''/api/pixels/ab'')) = Some (js ''ab'')
      \<and> loadMeta sampleStore (js ''ab'') = Some sampleMeta
      \<and> falsy (tokenParam (sampleRequest ''/api/pixels/ab''))"
    by (simp add: eval_defs)
  have b: "reportIdOf (pathname ((sampleRequest ''/api/pixels/ab'')\<lparr> tokenParam := Some (js ''guess'') \<rparr>))
        = Some (js ''ab'')
      \<and> sha256Hex toyDigest
           (orEmpty (tokenParam ((sampleRequest ''/api/pixels/ab'')\<lparr> tokenParam := Some (js ''guess'') \<rparr>)))
         \<noteq> tokenHash sampleMeta"
    by (simp add: eval_defs)
  have c: "reportIdOf (pathname (sampleRequest ''/api/pixels/zz'')) = Some (js ''zz'')
      \<and> loadMeta sampleStore (js ''zz'') = None"
    by (simp add: eval_defs)
  have d: "reportIdOf (pathname (sampleRequest ''/api/pixels/'')) = None"
    by (simp add: eval_defs)
  from a b c d
    report_bad_token [of "sampleRequest ''/api/pixels/ab''" "js ''ab''" sampleStore sampleMeta
      toyDigest numberToString]
    report_bad_token [of "(sampleRequest ''/api/pixels/ab'')\<lparr> tokenParam := Some (js ''guess'') \<rparr>"
      "js ''ab''" sampleStore sampleMeta toyDigest numberToString]
    report_bad_token [of "sampleRequest ''/api/pixels/zz''" "js ''zz''" sampleStore sampleMeta
      toyDigest numberToString]
    report_bad_token [of "sampleRequest ''/api/pixels/''" "js ''zz''" sampleStore sampleMeta
      toyDigest numberToString]
  show ?thesis by blast
qed


section \<open>The token and the stored metadata (claim C3)\<close>

lemma loadMeta_put_same: "loadMeta (kv_put store (metaKey i) (StoredMeta m)) i = Some m"
  by (simp add: loadMeta_def kv_get_put_same)

lemma createPixel_result:
  "createdToken (fst (createPixel digest idRnd tokenRnd now request store))
     = Some (randomHex 16 tokenRnd)
   \<and> loadMeta (snd (createPixel digest idRnd tokenRnd now request store)) (randomHex 9 idRnd)
     = Some \<lparr> meta_id = randomHex 9 idRnd, createdAt = now,
              label = stringified (case getProp (payloadOf request) (js ''label'') of
                                     None \<Rightarrow> JNull | Some v \<Rightarrow> v),
              metadata = map_option stringified (getProp (payloadOf request) (js ''metadata'')),
              tokenHash = sha256Hex digest (randomHex 16 tokenRnd),
              openCount = 0, lastOpenedAt = None \<rparr>"
  by (simp add: createPixel_def Let_def createdToken_def jsonResponse_def loadMeta_put_same
      stringifiedMeta_def)

lemma randomHex_zero:
  "randomHex 9 (\<lambda>i. 0) = js ''000000000000000000''"
  "randomHex 16 (\<lambda>i. 0) = js ''00000000000000000000000000000000''"
  by (simp_all add: randomHex_def toHex_def hex2_def padStart_def toString16.simps hexDigit_def
      js_def upt_rec numeral_nat)

text \<open>Writing a value as JSON text and reading it back neither adds nor removes a string.\<close>

lemma occursJson_stringified: "occursJson t (stringified v) = occursJson t v"
proof (induction v rule: stringified.induct)
  case (2 items)
  then show ?case by (simp add: Bex_def image_iff) blast
next
  case (3 props)
  have "\<And>k v. (k, v) \<in> set props \<Longrightarrow> occursJson t (stringified v) = occursJson t v"
    using 3 by blast
  then show ?case by (force simp: Bex_def image_iff split: prod.splits)
qed simp_all

lemma occursOpt_stringified: "occursOpt t (map_option stringified vo) = occursOpt t vo"
  by (cases vo) (simp_all add: occursOpt_def occursJson_stringified)

lemma occursJson_label:
  "occursJson t (stringified (case vo of None \<Rightarrow> JNull | Some v \<Rightarrow> v)) = occursOpt t vo"
  by (cases vo) (simp_all add: occursOpt_def occursJson_stringified)

lemma createPixel_occurs:
  "map_option (occursInMeta (randomHex 16 tokenRnd))
     (loadMeta (snd (createPixel digest idRnd tokenRnd now request store)) (randomHex 9 idRnd))
   = Some (occursOpt (randomHex 16 tokenRnd) (getProp (payloadOf request) (js ''label''))
           \<or> occursOpt (randomHex 16 tokenRnd) (getProp (payloadOf request) (js ''metadata''))
           \<or> sublist (randomHex 16 tokenRnd) (sha256Hex digest (randomHex 16 tokenRnd)))"
  using createPixel_result [of digest idRnd tokenRnd now request store]
  by (simp add: occursInMeta_def occursJson_label occursOpt_stringified randomHex_token_not_in_id)

lemma campaign_token: "randomHex 16 (\<lambda>i. 171) = js ''abababababababababababababababab''"
  by code_simp

lemma campaign_hash_free:
  "\<not> sublist (randomHex 16 (\<lambda>i. 171)) (sha256Hex toyDigest (randomHex 16 (\<lambda>i. 171)))"
  by code_simp

lemma campaign_payload:
  "getProp (payloadOf campaignRequest) (js ''label'') = Some (JStr (js ''integration-test''))"
  "getProp (payloadOf campaignRequest) (js ''metadata'')
     = Some (JObj [(js ''campaign'', JStr (js ''fall'')), (js ''budget'', JInfinity False)])"
  by (simp_all add: campaignRequest_def payloadOf_def safeJson_def js_def)

lemma sublist_longer: "length s < length t \<Longrightarrow> \<not> sublist t s"
  using sublist_length_le [of t s] by auto

lemma campaign_payload_free:
  "\<not> occursOpt (randomHex 16 (\<lambda>i. 171)) (getProp (payloadOf campaignRequest) (js ''label''))"
  "\<not> occursOpt (randomHex 16 (\<lambda>i. 171)) (getProp (payloadOf campaignRequest) (js ''metadata''))"
  unfolding campaign_payload by (simp_all add: occursOpt_def sublist_longer js_def)


text \<open>
  Claim C3, as stated, fails in its second part. The payload is read and its label stored
  before anything compares it with the token: when the label is the very string that the
  random bytes of the token then spell (here sixteen zero bytes,
  \<^verbatim>\<open>00000000000000000000000000000000\<close>), the raw token stands in the stored \<open>PixelMeta\<close>, as
  its label. No digest is involved in that; the bytes of the generator are an input of the
  model, as the payload is.
\<close>

theorem token_in_label_counterexample:
  "createdToken (fst (createPixel toyDigest (\<lambda>i. 0) (\<lambda>i. 0) 1000 labelledRequest []))
     = Some (js ''00000000000000000000000000000000'')
   \<and> map_option label
        (loadMeta (snd (createPixel toyDigest (\<lambda>i. 0) (\<lambda>i. 0) 1000 labelledRequest []))
           (js ''000000000000000000''))
     = Some (JStr (js ''00000000000000000000000000000000''))
   \<and> map_option (occursInMeta (js ''00000000000000000000000000000000''))
        (loadMeta (snd (createPixel toyDigest (\<lambda>i. 0) (\<lambda>i. 0) 1000 labelledRequest []))
           (js ''000000000000000000''))
     = Some True"
proof -
  have p: "getProp (payloadOf labelledRequest) (js ''label'')
        = Some (JStr (js ''00000000000000000000000000000000''))"
    by (simp add: labelledRequest_def payloadOf_def safeJson_def)
  have "occursOpt (js ''00000000000000000000000000000000'')
          (getProp (payloadOf labelledRequest) (js ''label''))"
    unfolding p by (simp add: occursOpt_def)
  then have o: "map_option (occursInMeta (randomHex 16 (\<lambda>i. 0)))
        (loadMeta (snd (createPixel toyDigest (\<lambda>i. 0) (\<lambda>i. 0) 1000 labelledRequest []))
           (randomHex 9 (\<lambda>i. 0)))
      = Some True"
    using createPixel_occurs [of "\<lambda>i. 0" toyDigest "\<lambda>i. 0" 1000 labelledRequest "[]"]
    by (simp add: randomHex_zero)
  show ?thesis
    using createPixel_result [of toyDigest "\<lambda>i. 0" "\<lambda>i. 0" 1000 labelledRequest "[]"] p o
    by (simp add: randomHex_zero)
qed

text \<open>
  Claim C3, amended. For every creation request, whatever the payload, the digest and the
  random bytes: the token that the response returns hashes to the \<open>tokenHash\<close> of the
  \<open>PixelMeta\<close> written to the store. That \<open>PixelMeta\<close> is the identifier, the clock, the label
  and the metadata of the payload as \<^verbatim>\<open>JSON.stringify\<close> writes them (\<^verbatim>\<open>null\<close> for a missing label
  and for a number that is not finite), the hash of the token, and the count 0: it has no
  field for the raw token. And the raw token occurs in it exactly when it occurs in the
  label or in the metadata of the payload, or in the hexadecimal text of its own hash:
  when the payload does not hold the token and the hash does not spell it, the token
  occurs nowhere in the stored value.
\<close>

theorem created_token_hash_stored:
  "createdToken (fst (createPixel digest idRnd tokenRnd now request store))
     = Some (randomHex 16 tokenRnd)
   \<and> loadMeta (snd (createPixel digest idRnd tokenRnd now request store)) (randomHex 9 idRnd)
     = Some \<lparr> meta_id = randomHex 9 idRnd, createdAt = now,
              label = stringified (case getProp (payloadOf request) (js ''label'') of
                                     None \<Rightarrow> JNull | Some v \<Rightarrow> v),
              metadata = map_option stringified (getProp (payloadOf request) (js ''metadata'')),
              tokenHash = sha256Hex digest (randomHex 16 tokenRnd),
              openCount = 0, lastOpenedAt = None \<rparr>
   \<and> map_option tokenHash
        (loadMeta (snd (createPixel digest idRnd tokenRnd now request store)) (randomHex 9 idRnd))
     = map_option (sha256Hex digest)
        (createdToken (fst (createPixel digest idRnd tokenRnd now request store)))
   \<and> map_option (occursInMeta (randomHex 16 tokenRnd))
        (loadMeta (snd (createPixel digest idRnd tokenRnd now request store)) (randomHex 9 idRnd))
     = Some (occursOpt (randomHex 16 tokenRnd) (getProp (payloadOf request) (js ''label''))
             \<or> occursOpt (randomHex 16 tokenRnd) (getProp (payloadOf request) (js ''metadata''))
             \<or> sublist (randomHex 16 tokenRnd) (sha256Hex digest (randomHex 16 tokenRnd)))
   \<and> (\<not> occursOpt (randomHex 16 tokenRnd) (getProp (payloadOf request) (js ''label''))
        \<and> \<not> occursOpt (randomHex 16 tokenRnd) (getProp (payloadOf request) (js ''metadata''))
        \<and> \<not> sublist (randomHex 16 tokenRnd) (sha256Hex digest (randomHex 16 tokenRnd))
      \<longrightarrow> (\<exists>m. loadMeta (snd (createPixel digest idRnd tokenRnd now request store))
                   (randomHex 9 idRnd) = Some m
                \<and> \<not> occursInMeta (randomHex 16 tokenRnd) m))"
  using createPixel_result [of digest idRnd tokenRnd now request store]
    createPixel_occurs [of tokenRnd digest idRnd now request store]
  by auto


theorem created_token_hash_stored_witness:
  "(\<not> occursOpt (randomHex 16 (\<lambda>i. 171)) (getProp (payloadOf campaignRequest) (js ''label''))
    \<and> \<not> occursOpt (randomHex 16 (\<lambda>i. 171)) (getProp (payloadOf campaignRequest) (js ''metadata''))
    \<and> \<not> sublist (randomHex 16 (\<lambda>i. 171)) (sha256Hex toyDigest (randomHex 16 (\<lambda>i. 171))))
   \<and> randomHex 16 (\<lambda>i. 171) = js ''abababababababababababababababab''
   \<and> createdToken (fst (createPixel toyDigest (\<lambda>i. 1) (\<lambda>i. 171) 1000 campaignRequest []))
       = Some (randomHex 16 (\<lambda>i. 171))
   \<and> loadMeta (snd (createPixel toyDigest (\<lambda>i. 1) (\<lambda>i. 171) 1000 campaignRequest []))
         (randomHex 9 (\<lambda>i. 1))
       = Some \<lparr> meta_id = randomHex 9 (\<lambda>i. 1), createdAt = 1000,
                label = JStr (js ''integration-test''),
                metadata = Some (JObj [(js ''campaign'', JStr (js ''fall'')), (js ''budget'', JNull)]),
                tokenHash = sha256Hex toyDigest (randomHex 16 (\<lambda>i. 171)),
                openCount = 0, lastOpenedAt = None \<rparr>
   \<and> map_option tokenHash
        (loadMeta (snd (createPixel toyDigest (\<lambda>i. 1) (\<lambda>i. 171) 1000 campaignRequest []))
           (randomHex 9 (\<lambda>i. 1)))
       = map_option (sha256Hex toyDigest)
          (createdToken (fst (createPixel toyDigest (\<lambda>i. 1) (\<lambda>i. 171) 1000 campaignRequest [])))
   \<and> (\<exists>m. loadMeta (snd (createPixel toyDigest (\<lambda>i. 1) (\<lambda>i. 171) 1000 campaignRequest []))
              (randomHex 9 (\<lambda>i. 1)) = Some m
          \<and> \<not> occursInMeta (randomHex 16 (\<lambda>i. 171)) m)"
  (is "?H \<and> ?T \<and> ?A \<and> loadMeta ?store ?id = Some ?meta \<and> ?B \<and> ?C")
proof -
  have h: "?H"
    by (intro conjI campaign_payload_free campaign_hash_free)
  have t: "?T" by (rule campaign_token)
  note c = created_token_hash_stored [of toyDigest "\<lambda>i. 1" "\<lambda>i. 171" 1000 campaignRequest "[]"]
  have a: "?A" and b: "?B" using c by blast+
  have m: "loadMeta ?store ?id = Some ?meta"
    using c unfolding campaign_payload by simp
  have "?C" using c h by blast
  with h t a m b show ?thesis by blast
qed


section \<open>The body of an authorized report (claim C6)\<close>

lemma sorted_loadEvents: "sorted (map timestamp (loadEvents store i))"
  by (simp add: loadEvents_def Let_def)

lemma event_key_not_meta: "prefix (eventKeyPrefix i) k \<Longrightarrow> k \<noteq> metaKey j"
  by (auto simp: eventKeyPrefix_def metaKey_def js_def prefix_def)

lemma keys_put_present:
  "kv_get store k \<noteq> None \<Longrightarrow> map fst (kv_put store k v) = map fst store"
  by (auto simp: kv_get_def kv_put_def update_keys map_of_eq_None_iff)

lemma map_filter_cong_set:
  "(\<And>x. x \<in> set xs \<Longrightarrow> f x = g x) \<Longrightarrow> List.map_filter f xs = List.map_filter g xs"
proof (induction xs)
  case Nil
  show ?case by (simp add: List.map_filter_simps)
next
  case (Cons a xs)
  have "f a = g a" by (rule Cons.prems) simp
  moreover have "List.map_filter f xs = List.map_filter g xs"
    by (rule Cons.IH) (simp add: Cons.prems)
  ultimately show ?case by (simp add: List.map_filter_simps split: option.split)
qed

lemma loadEvents_put_meta:
  assumes "kv_get store (metaKey j) \<noteq> None"
  shows "loadEvents (kv_put store (metaKey j) v) i = loadEvents store i"
proof -
  let ?store' = "kv_put store (metaKey j) v"
  have keys: "kv_list ?store' (eventKeyPrefix i) 1000 = kv_list store (eventKeyPrefix i) 1000"
    using assms by (simp add: kv_list_def keys_put_present)
  have "kv_get ?store' k = kv_get store k" if "k \<in> set (kv_list store (eventKeyPrefix i) 1000)" for k
  proof -
    from that have "prefix (eventKeyPrefix i) k"
      by (auto simp: kv_list_def dest: in_set_takeD)
    then have "k \<noteq> metaKey j" by (rule event_key_not_meta)
    then show ?thesis by (simp add: kv_get_put_other)
  qed
  then have "List.map_filter
        (\<lambda>k. case kv_get ?store' k of Some (StoredEvent e) \<Rightarrow> Some e | _ \<Rightarrow> None)
        (kv_list store (eventKeyPrefix i) 1000)
      = List.map_filter
        (\<lambda>k. case kv_get store k of Some (StoredEvent e) \<Rightarrow> Some e | _ \<Rightarrow> None)
        (kv_list store (eventKeyPrefix i) 1000)"
    by (intro map_filter_cong_set) simp
  with keys show ?thesis by (simp add: loadEvents_def Let_def)
qed

lemma report_authorized:
  assumes "reportIdOf (pathname request) = Some i" "loadMeta store i = Some meta"
    "tokenParam request = Some t" "t \<noteq> []" "sha256Hex digest t = tokenHash meta"
  shows "body (getPixelReport digest isoString request store)
         = reportBody isoString request meta (loadEvents store i)"
  using assms
  by (simp add: getPixelReport_def falsy_def orEmpty_def Let_def reportBody_def buildCsv_def
      jsonResponse_def sanitizeMeta_def)

lemma reportBody_hash: "reportBody isoString request (meta\<lparr> tokenHash := h \<rparr>) events
   = reportBody isoString request meta events"
  by (simp add: reportBody_def)

lemma reportBody_token: "reportBody isoString (request\<lparr> tokenParam := p \<rparr>) meta events
   = reportBody isoString request meta events"
  by (simp add: reportBody_def)

lemma report_other_hash:
  assumes "reportIdOf (pathname request) = Some i" "loadMeta store i = Some meta"
    "tokenParam request = Some t" "t \<noteq> []" "sha256Hex digest t = tokenHash meta"
    "t' \<noteq> []"
  shows "body (getPixelReport digest isoString (request\<lparr> tokenParam := Some t' \<rparr>)
            (kv_put store (metaKey i) (StoredMeta (meta\<lparr> tokenHash := sha256Hex digest t' \<rparr>))))
         = body (getPixelReport digest isoString request store)"
proof -
  let ?store' = "kv_put store (metaKey i) (StoredMeta (meta\<lparr> tokenHash := sha256Hex digest t' \<rparr>))"
  let ?request' = "request\<lparr> tokenParam := Some t' \<rparr>"
  have present: "kv_get store (metaKey i) \<noteq> None"
    using assms(2) by (auto simp: loadMeta_def split: option.splits)
  have "body (getPixelReport digest isoString ?request' ?store')
      = reportBody isoString ?request' (meta\<lparr> tokenHash := sha256Hex digest t' \<rparr>) (loadEvents ?store' i)"
    using assms(1,6) by (intro report_authorized [where t = t']) (simp_all add: loadMeta_put_same)
  also have "\<dots> = reportBody isoString request meta (loadEvents store i)"
    using present by (simp add: reportBody_hash reportBody_token loadEvents_put_meta)
  also have "\<dots> = body (getPixelReport digest isoString request store)"
    using assms(1-5) by (simp add: report_authorized)
  finally show ?thesis .
qed

lemma sample_report_facts:
  "reportIdOf (pathname sampleReportRequest) = Some (js ''ab'')"
  "loadMeta sampleOpenedStore (js ''ab'') = Some sampleOpenedMeta"
  "tokenParam sampleReportRequest = Some (js ''k'')"
  "js ''k'' \<noteq> []"
  "sha256Hex toyDigest (js ''k'') = tokenHash sampleOpenedMeta"
  "js ''other'' \<noteq> []"
  by (simp_all add: sampleReportRequest_def sampleOpenedStore_def sampleOpenedMeta_def eval_defs)

lemma sample_report_events:
  "loadEvents sampleOpenedStore (js ''ab'') = [sampleEventEarly, sampleEventLate]"
  by (simp add: loadEvents_def kv_list_def kv_get_def sampleOpenedStore_def eventKeyPrefix_def
      js_def List.map_filter_simps Let_def sampleEventLate_def sampleEventEarly_def)


lemma sublist_join_mem: "x \<in> set xs \<Longrightarrow> sublist x (join sep xs)"
proof (induction sep xs rule: join.induct)
  case (1 sep)
  then show ?case by simp
next
  case (2 sep y)
  then show ?case by simp
next
  case (3 sep y z zs)
  show ?case
  proof (cases "x = y")
    case True
    then show ?thesis by simp
  next
    case False
    with 3 have "sublist x (join sep (z # zs))" by simp
    then obtain ps ss where "join sep (z # zs) = ps @ x @ ss" by (auto simp: sublist_def)
    then have "join sep (y # z # zs) = (y @ sep @ ps) @ x @ ss" by simp
    then show ?thesis unfolding sublist_def by blast
  qed
qed

lemma doubleQuotes_none: "QUOTE \<notin> set v \<Longrightarrow> doubleQuotes v = v"
  by (induction v) auto

lemma escapeCsv_plain:
  assumes "\<forall>c \<in> set h. 48 \<le> unat c"
  shows "escapeCsv (Some h) = h"
proof -
  have "QUOTE \<notin> set h" "COMMA \<notin> set h" "NEWLINE \<notin> set h"
    using assms by (auto simp: QUOTE_def COMMA_def NEWLINE_def)
  then show ?thesis by (simp add: escapeCsv_def doubleQuotes_none Let_def)
qed

lemma csv_holds_user_agent:
  assumes "userAgent event = Some h" "\<forall>c \<in> set h. 48 \<le> unat c"
  shows "sublist h (buildCsv isoString meta [event])"
proof -
  let ?row = "join [COMMA] (csvRow isoString event)"
  have "h \<in> set (csvRow isoString event)"
    using assms by (simp add: csvRow_def escapeCsv_plain)
  then have "sublist h ?row" by (rule sublist_join_mem)
  then obtain ps ss where "?row = ps @ h @ ss" by (auto simp: sublist_def)
  then have "buildCsv isoString meta [event] = (join [COMMA] csvHeaders @ [NEWLINE] @ ps) @ h @ ss"
    by (simp add: buildCsv_def)
  then show ?thesis unfolding sublist_def by blast
qed

lemma sha256Hex_ge: "\<forall>c \<in> set (sha256Hex digest t). 48 \<le> unat c"
  by (auto simp: sha256Hex_def toHex_def dest: hex2_ge)

lemma sample_hash_facts:
  "reportIdOf (pathname sampleCsvRequest) = Some (js ''ab'')"
  "loadMeta sampleHashStore (js ''ab'') = Some sampleMeta"
  "tokenParam sampleCsvRequest = Some (js ''k'')"
  "js ''k'' \<noteq> []"
  "sha256Hex toyDigest (js ''k'') = tokenHash sampleMeta"
  "formatParam sampleCsvRequest = Some (js ''csv'')"
  by (simp_all add: sampleCsvRequest_def sampleHashStore_def eval_defs)

lemma sample_hash_events: "loadEvents sampleHashStore (js ''ab'') = [sampleHashEvent]"
  by (simp add: loadEvents_def kv_list_def kv_get_def sampleHashStore_def eventKeyPrefix_def
      js_def List.map_filter_simps Let_def)

lemma sample_hash_body:
  "body (getPixelReport toyDigest numberToString sampleCsvRequest sampleHashStore)
   = TextBody (buildCsv numberToString sampleMeta [sampleHashEvent])"
  using report_authorized [OF sample_hash_facts(1,2,3,4,5), of numberToString]
  by (simp add: reportBody_def sample_hash_facts(6) sample_hash_events buildCsv_def)

lemma sample_hash_in_csv:
  "sublist (tokenHash sampleMeta) (buildCsv numberToString sampleMeta [sampleHashEvent])"
proof -
  have "userAgent sampleHashEvent = Some (tokenHash sampleMeta)"
    by (simp add: sampleHashEvent_def sampleMeta_def)
  moreover have "\<forall>c \<in> set (tokenHash sampleMeta). 48 \<le> unat c"
    using sha256Hex_ge [of toyDigest "js ''k''"] by (simp add: sampleMeta_def)
  ultimately show ?thesis by (rule csv_holds_user_agent)
qed


text \<open>
  Claim C6, as stated, fails in its first sentence. An event keeps the user agent of the
  open as it came, and the CSV rendering prints it: when a client that holds the token
  opens the pixel with the hash of the token as its user agent, the body of the
  authorized report contains the stored \<open>tokenHash\<close>, in the user-agent column. This is so
  for every digest (\<open>csv_holds_user_agent\<close>, \<open>sha256Hex_ge\<close>); the sample uses \<open>toyDigest\<close>.
\<close>

theorem hash_in_user_agent_counterexample:
  "reportIdOf (pathname sampleCsvRequest) = Some (js ''ab'')
   \<and> loadMeta sampleHashStore (js ''ab'') = Some sampleMeta
   \<and> tokenParam sampleCsvRequest = Some (js ''k'') \<and> js ''k'' \<noteq> []
   \<and> sha256Hex toyDigest (js ''k'') = tokenHash sampleMeta
   \<and> body (getPixelReport toyDigest numberToString sampleCsvRequest sampleHashStore)
       = TextBody (buildCsv numberToString sampleMeta [sampleHashEvent])
   \<and> sublist (tokenHash sampleMeta) (buildCsv numberToString sampleMeta [sampleHashEvent])"
  by (intro conjI sample_hash_facts(1,2,3,4,5) sample_hash_body sample_hash_in_csv)

text \<open>
  Claim C6, amended. For an authorized report request (the path names an id with stored
  metadata, and the token is not empty and hashes to the stored \<open>tokenHash\<close>), the body is
  not made from the stored \<open>tokenHash\<close>. For the format \<^verbatim>\<open>csv\<close> it is the CSV text made of
  the line of the eight fixed column names and one line per event, built from the events
  alone; otherwise it is the JSON value made of the metadata without its \<open>tokenHash\<close>
  field, every other field as stored, and of the events. The events are sorted by
  timestamp, ascending. The same pixel stored with the hash of another token, and queried
  with that token, gives the same body.
\<close>

theorem authorized_report_omits_hash:
  "reportIdOf (pathname request) = Some i \<and> loadMeta store i = Some meta
   \<and> tokenParam request = Some t \<and> t \<noteq> [] \<and> sha256Hex digest t = tokenHash meta
   \<longrightarrow>
     body (getPixelReport digest isoString request store)
       = (if formatParam request = Some (js ''csv'')
          then TextBody (join [NEWLINE]
                 (join [COMMA] csvHeaders
                  # map (\<lambda>event. join [COMMA] (csvRow isoString event)) (loadEvents store i)))
          else ReportJson
                 \<lparr> safe_id = meta_id meta, safe_createdAt = createdAt meta,
                   safe_label = label meta, safe_metadata = metadata meta,
                   safe_openCount = openCount meta, safe_lastOpenedAt = lastOpenedAt meta \<rparr>
                 (loadEvents store i))
     \<and> sorted (map timestamp (loadEvents store i))
     \<and> (\<forall>t'. t' \<noteq> [] \<longrightarrow>
           body (getPixelReport digest isoString (request\<lparr> tokenParam := Some t' \<rparr>)
             (kv_put store (metaKey i) (StoredMeta (meta\<lparr> tokenHash := sha256Hex digest t' \<rparr>))))
           = body (getPixelReport digest isoString request store))"
  using report_authorized [of request i store meta t digest isoString]
    report_other_hash [of request i store meta t digest _ isoString]
    sorted_loadEvents [of store i]
  by (auto simp: reportBody_def)

theorem authorized_report_omits_hash_witness:
  "(reportIdOf (pathname sampleReportRequest) = Some (js ''ab'')
     \<and> loadMeta sampleOpenedStore (js ''ab'') = Some sampleOpenedMeta
     \<and> tokenParam sampleReportRequest = Some (js ''k'') \<and> js ''k'' \<noteq> []
     \<and> sha256Hex toyDigest (js ''k'') = tokenHash sampleOpenedMeta)
   \<and> loadEvents sampleOpenedStore (js ''ab'') = [sampleEventEarly, sampleEventLate]
   \<and> body (getPixelReport toyDigest numberToString sampleReportRequest sampleOpenedStore)
       = (if formatParam sampleReportRequest = Some (js ''csv'')
          then TextBody (join [NEWLINE]
                 (join [COMMA] csvHeaders
                  # map (\<lambda>event. join [COMMA] (csvRow numberToString event))
                      (loadEvents sampleOpenedStore (js ''ab''))))
          else ReportJson
                 \<lparr> safe_id = meta_id sampleOpenedMeta, safe_createdAt = createdAt sampleOpenedMeta,
                   safe_label = label sampleOpenedMeta, safe_metadata = metadata sampleOpenedMeta,
                   safe_openCount = openCount sampleOpenedMeta,
                   safe_lastOpenedAt = lastOpenedAt sampleOpenedMeta \<rparr>
                 (loadEvents sampleOpenedStore (js ''ab'')))
   \<and> sorted (map timestamp (loadEvents sampleOpenedStore (js ''ab'')))
   \<and> js ''other'' \<noteq> []
   \<and> body (getPixelReport toyDigest numberToString
         (sampleReportRequest\<lparr> tokenParam := Some (js ''other'') \<rparr>)
         (kv_put sampleOpenedStore (metaKey (js ''ab''))
            (StoredMeta (sampleOpenedMeta\<lparr> tokenHash := sha256Hex toyDigest (js ''other'') \<rparr>))))
       = body (getPixelReport toyDigest numberToString sampleReportRequest sampleOpenedStore)"
proof -
  note f = sample_report_facts
  from authorized_report_omits_hash [of sampleReportRequest "js ''ab''" sampleOpenedStore
      sampleOpenedMeta "js ''k''" toyDigest numberToString]
    f(1) f(2) f(3) f(4) f(5) f(6) sample_report_events
  show ?thesis by blast
qed


section \<open>The referer in the CSV rendering (claim C7)\<close>

subsection \<open>The reader on one field\<close>














subsection \<open>The reader on a row and on the lines of a rendering\<close>
















subsection \<open>The claim\<close>










section \<open>The suffix of the pixel path (claim C10)\<close>

lemma pixelIdOf_pixel_path: "pixelIdOf (js ''/pixel/'' @ s) = stripGif (firstSegment s)"
proof -
  have "js ''pixel'' \<noteq> []" by (simp add: js_def)
  then show ?thesis
    by (simp add: pixelIdOf_def split_pixel_path index_def firstSegment_def Let_def
        split: list.splits)
qed

lemma isGifSuffix_length: "isGifSuffix t \<Longrightarrow> length t = 4"
  by (auto simp: isGifSuffix_def split: list.splits)

lemma isGifSuffix_no_slash: "isGifSuffix t \<Longrightarrow> SLASH \<notin> set t"
  by (auto simp: isGifSuffix_def SLASH_def DOT_def split: list.splits)

lemma stripGif_append: "isGifSuffix t \<Longrightarrow> stripGif (s @ t) = s"
  by (simp add: stripGif_def isGifSuffix_length)

lemma stripGif_id: "\<not> endsGif s \<Longrightarrow> stripGif s = s"
  by (auto simp: stripGif_def endsGif_def)

lemma endsGif_suffix:
  assumes "endsGif l" "suffix l s"
  shows "endsGif s"
proof -
  from assms(2) obtain p where s: "s = p @ l" by (auto simp: suffix_def)
  from assms(1) have "4 \<le> length l" and "isGifSuffix (drop (length l - 4) l)"
    by (simp_all add: endsGif_def)
  then show ?thesis by (simp add: endsGif_def s)
qed

lemma firstSegment_gif:
  assumes "isGifSuffix t" "\<not> endsGif s"
  shows "stripGif (firstSegment (s @ t)) = stripGif (firstSegment s)"
proof -
  obtain b l where sp: "split SLASH s = b @ [l]"
    using split_not_Nil [of SLASH s] by (cases "split SLASH s" rule: rev_cases) auto
  have t: "t \<noteq> []" using assms(1) isGifSuffix_length by fastforce
  have spt: "split SLASH (s @ t) = b @ [l @ t]"
    using assms(1) by (simp add: split_append_nosep isGifSuffix_no_slash sp)
  have "suffix l s" using last_split_suffix [of SLASH s] by (simp add: sp)
  then have "\<not> endsGif l" using assms(2) endsGif_suffix by blast
  then have one: "stripGif l = l" by (rule stripGif_id)
  show ?thesis
  proof (cases "filter (\<lambda>x. x \<noteq> []) b")
    case Nil
    have "firstSegment (s @ t) = l @ t"
      using Nil t by (simp add: firstSegment_def spt)
    moreover have "firstSegment s = l"
      using Nil by (simp add: firstSegment_def sp)
    ultimately show ?thesis using one assms(1) by (simp add: stripGif_append)
  next
    case (Cons x xs)
    have "firstSegment (s @ t) = x"
      using Cons by (simp add: firstSegment_def spt)
    moreover have "firstSegment s = x"
      using Cons by (simp add: firstSegment_def sp)
    ultimately show ?thesis by simp
  qed
qed

lemma pixelIdOf_gif:
  assumes "isGifSuffix t" "\<not> endsGif i"
  shows "pixelIdOf (js ''/pixel/'' @ i @ t) = pixelIdOf (js ''/pixel/'' @ i)"
  using firstSegment_gif [OF assms] by (simp add: pixelIdOf_pixel_path)

lemma pixelIdOf_plain:
  assumes "SLASH \<notin> set i" "\<not> endsGif i"
  shows "pixelIdOf (js ''/pixel/'' @ i) = i"
proof (cases "i = []")
  case True
  then show ?thesis
    using pixelIdOf_pixel_path [of "[]"] by (simp add: firstSegment_def stripGif_def)
next
  case False
  with assms show ?thesis
    by (simp add: pixelIdOf_pixel_path firstSegment_def split_no_sep stripGif_id)
qed

lemma buildEventRecord_path [simp]:
  "buildEventRecord now (request\<lparr> pathname := p \<rparr>) = buildEventRecord now request"
  by (simp add: buildEventRecord_def header_def)

lemma servePixel_path:
  "pixelIdOf p = pixelIdOf q \<Longrightarrow>
   servePixel now ms rnd (request\<lparr> pathname := p \<rparr>) isHead store
   = servePixel now ms rnd (request\<lparr> pathname := q \<rparr>) isHead store"
  by (simp add: servePixel_def Let_def split: option.split)

lemma endsGif_dot: "endsGif s \<Longrightarrow> DOT \<in> set s"
proof -
  assume e: "endsGif s"
  then obtain b c d where "drop (length s - 4) s = [DOT, b, c, d]"
    by (auto simp: endsGif_def isGifSuffix_def split: list.splits)
  then have "DOT \<in> set (drop (length s - 4) s)" by simp
  then show ?thesis by (rule in_set_dropD)
qed

lemma randomHex_not_gif: "\<not> endsGif (randomHex n rnd)"
proof
  assume "endsGif (randomHex n rnd)"
  then have "DOT \<in> set (randomHex n rnd)" by (rule endsGif_dot)
  then have "48 \<le> unat DOT" by (rule randomHex_ge)
  then show False by (simp add: DOT_def)
qed


text \<open>
  Claim C10, as stated, fails for an id that itself ends in \<^verbatim>\<open>.gif\<close>: only one suffix is
  stripped, so \<^verbatim>\<open>/pixel/a.gif\<close> resolves to the pixel \<^verbatim>\<open>a\<close> and \<^verbatim>\<open>/pixel/a.gif.gif\<close> to the
  pixel \<^verbatim>\<open>a.gif\<close>.
\<close>

theorem gif_suffix_counterexample:
  "pixelIdOf (js ''/pixel/'' @ js ''a.gif'') = js ''a''
   \<and> pixelIdOf (js ''/pixel/'' @ js ''a.gif'' @ js ''.gif'') = js ''a.gif''
   \<and> pixelIdOf (js ''/pixel/'' @ js ''a.gif'' @ js ''.gif'')
       \<noteq> pixelIdOf (js ''/pixel/'' @ js ''a.gif'')"
  by (simp add: eval_defs)

text \<open>
  Claim C10, amended. The open path strips one trailing \<^verbatim>\<open>.gif\<close>, in any case of its
  letters, from the pixel path segment before the metadata lookup. For every id that does
  not itself end in \<^verbatim>\<open>.gif\<close> (in any case), and every case variant of the suffix, the
  paths \<^verbatim>\<open>/pixel/<id>\<close> and \<^verbatim>\<open>/pixel/<id>.gif\<close> resolve to the same pixel id, hence to the
  same event prefix, and an open of either does the same to the store and gets the same
  response; when the id has no slash either, that pixel id is the id itself. Every id
  that the service issues (the text of \<open>randomHex\<close>) is such an id.
\<close>

theorem gif_suffix_same_pixel:
  "(isGifSuffix t \<and> \<not> endsGif i \<longrightarrow>
      pixelIdOf (js ''/pixel/'' @ i @ t) = pixelIdOf (js ''/pixel/'' @ i)
      \<and> eventKeyPrefix (pixelIdOf (js ''/pixel/'' @ i @ t))
          = eventKeyPrefix (pixelIdOf (js ''/pixel/'' @ i))
      \<and> servePixel now ms rnd (request\<lparr> pathname := js ''/pixel/'' @ i @ t \<rparr>) isHead store
          = servePixel now ms rnd (request\<lparr> pathname := js ''/pixel/'' @ i \<rparr>) isHead store)
   \<and> (SLASH \<notin> set i \<and> \<not> endsGif i \<longrightarrow> pixelIdOf (js ''/pixel/'' @ i) = i)
   \<and> \<not> endsGif (randomHex n idRnd) \<and> SLASH \<notin> set (randomHex n idRnd)"
  using pixelIdOf_gif [of t i] pixelIdOf_plain [of i]
    servePixel_path [of "js ''/pixel/'' @ i @ t" "js ''/pixel/'' @ i" now ms rnd request isHead store]
    randomHex_not_gif [of n idRnd] randomHex_no_slash [of n idRnd]
  by auto

theorem gif_suffix_same_pixel_witness:
  "(isGifSuffix (js ''.GiF'') \<and> \<not> endsGif (js ''4f9e2a6d8b71''))
   \<and> pixelIdOf (js ''/pixel/'' @ js ''4f9e2a6d8b71'' @ js ''.GiF'')
       = pixelIdOf (js ''/pixel/'' @ js ''4f9e2a6d8b71'')
   \<and> eventKeyPrefix (pixelIdOf (js ''/pixel/'' @ js ''4f9e2a6d8b71'' @ js ''.GiF''))
       = eventKeyPrefix (pixelIdOf (js ''/pixel/'' @ js ''4f9e2a6d8b71''))
   \<and> servePixel 2000 2001 (\<lambda>i. 7)
         ((sampleRequest ''/'')\<lparr> pathname := js ''/pixel/'' @ js ''4f9e2a6d8b71'' @ js ''.GiF'' \<rparr>)
         False sampleStore
       = servePixel 2000 2001 (\<lambda>i. 7)
         ((sampleRequest ''/'')\<lparr> pathname := js ''/pixel/'' @ js ''4f9e2a6d8b71'' \<rparr>)
         False sampleStore
   \<and> SLASH \<notin> set (js ''4f9e2a6d8b71'')
   \<and> pixelIdOf (js ''/pixel/'' @ js ''4f9e2a6d8b71'') = js ''4f9e2a6d8b71''"
proof -
  have h: "isGifSuffix (js ''.GiF'') \<and> \<not> endsGif (js ''4f9e2a6d8b71'')
           \<and> SLASH \<notin> set (js ''4f9e2a6d8b71'')"
    by (simp add: isGifSuffix_def endsGif_def js_def DOT_def SLASH_def)
  from gif_suffix_same_pixel [of "js ''.GiF''" "js ''4f9e2a6d8b71''" 2000 2001 "\<lambda>i. 7"
      "sampleRequest ''/''" False sampleStore] h
  show ?thesis by blast
qed


section \<open>Opens in sequence (claim C2)\<close>

lemma plusOne_small: "n < 2 ^ 53 \<Longrightarrow> plusOne n = n + 1"
  by (simp add: plusOne_def)

lemma plusOne_funpow: "n \<le> 2 ^ 53 \<Longrightarrow> (plusOne ^^ n) 0 = n"
proof (induction n)
  case 0
  show ?case by simp
next
  case (Suc n)
  then have "(plusOne ^^ n) 0 = n" and "n < 2 ^ 53" by simp_all
  then show ?case by (simp add: plusOne_small)
qed

lemma plusOne_funpow_sat: "(plusOne ^^ n) 0 = min n (2 ^ 53)"
proof (induction n)
  case 0
  show ?case by simp
next
  case (Suc n)
  show ?case
  proof (cases "n < 2 ^ 53")
    case True
    with Suc show ?thesis by (simp add: plusOne_small)
  next
    case False
    with Suc have "(plusOne ^^ n) 0 = 2 ^ 53" by simp
    moreover have "plusOne (2 ^ 53) = 2 ^ 53" by (simp add: plusOne_def)
    ultimately show ?thesis using False by simp
  qed
qed

lemma keys_put_new:
  "k \<notin> set (map fst store) \<Longrightarrow> map fst (kv_put store k v) = map fst store @ [k]"
  by (simp add: kv_put_def update_keys)

lemma eventKey_prefix: "prefix (eventKeyPrefix i) (eventKey i ms rnd)"
  by (simp add: eventKey_def)

lemma loadMeta_present: "loadMeta store i = Some m \<Longrightarrow> metaKey i \<in> set (map fst store)"
proof -
  assume "loadMeta store i = Some m"
  then have "map_of store (metaKey i) \<noteq> None"
    by (auto simp: loadMeta_def kv_get_def split: option.splits)
  then show ?thesis by (simp add: map_of_eq_None_iff)
qed

lemma openOnce_eq:
  "loadMeta store (pixelIdOf (pathname (o_request opn))) = Some m \<Longrightarrow>
   openOnce opn store
   = kv_put (kv_put store (openKey opn) (StoredEvent (buildEventRecord (o_now opn) (o_request opn))))
       (metaKey (pixelIdOf (pathname (o_request opn))))
       (StoredMeta (stringifiedMeta
          (m\<lparr> openCount := plusOne (openCount m), lastOpenedAt := Some (o_now opn) \<rparr>)))"
  by (simp add: openOnce_def servePixel_def Let_def storeEvent_def openKey_def
      buildEventRecord_def)

lemma openOnce_meta:
  assumes "loadMeta store i = Some m" "pixelIdOf (pathname (o_request opn)) = i"
  shows "loadMeta (openOnce opn store) i
         = Some (stringifiedMeta
             (m\<lparr> openCount := plusOne (openCount m), lastOpenedAt := Some (o_now opn) \<rparr>))"
  using assms by (simp add: openOnce_eq loadMeta_put_same)

lemma openOnce_keys:
  assumes "loadMeta store i = Some m" "pixelIdOf (pathname (o_request opn)) = i"
    "openKey opn \<notin> set (map fst store)"
  shows "map fst (openOnce opn store) = map fst store @ [openKey opn]"
proof -
  let ?s1 = "kv_put store (openKey opn) (StoredEvent (buildEventRecord (o_now opn) (o_request opn)))"
  have k1: "map fst ?s1 = map fst store @ [openKey opn]"
    using assms(3) by (rule keys_put_new)
  have "metaKey i \<in> set (map fst store)" using assms(1) by (rule loadMeta_present)
  then have "metaKey i \<in> set (map fst ?s1)" by (simp add: k1)
  then have "map fst (kv_put ?s1 (metaKey i) v) = map fst ?s1" for v
    by (simp add: kv_put_def update_keys)
  with k1 assms(1,2) show ?thesis by (simp add: openOnce_eq)
qed

lemma openAll_count:
  assumes "loadMeta store i = Some m"
    "\<forall>opn \<in> set opns. pixelIdOf (pathname (o_request opn)) = i"
  shows "map_option openCount (loadMeta (openAll opns store) i)
         = Some ((plusOne ^^ length opns) (openCount m))"
  using assms
proof (induction opns arbitrary: store m)
  case Nil
  then show ?case by simp
next
  case (Cons opn opns)
  let ?m = "stringifiedMeta
    (m\<lparr> openCount := plusOne (openCount m), lastOpenedAt := Some (o_now opn) \<rparr>)"
  have "loadMeta (openOnce opn store) i = Some ?m"
    using Cons.prems by (simp add: openOnce_meta)
  moreover have "\<forall>opn \<in> set opns. pixelIdOf (pathname (o_request opn)) = i"
    using Cons.prems by simp
  ultimately have "map_option openCount (loadMeta (openAll opns (openOnce opn store)) i)
      = Some ((plusOne ^^ length opns) (openCount ?m))"
    by (rule Cons.IH)
  then show ?case by (simp add: funpow_swap1)
qed

lemma openAll_keys:
  assumes "loadMeta store i = Some m"
    "\<forall>opn \<in> set opns. pixelIdOf (pathname (o_request opn)) = i"
    "distinct (map openKey opns)"
    "set (map openKey opns) \<inter> set (map fst store) = {}"
  shows "map fst (openAll opns store) = map fst store @ map openKey opns"
  using assms
proof (induction opns arbitrary: store m)
  case Nil
  then show ?case by simp
next
  case (Cons opn opns)
  let ?m = "stringifiedMeta
    (m\<lparr> openCount := plusOne (openCount m), lastOpenedAt := Some (o_now opn) \<rparr>)"
  let ?s = "openOnce opn store"
  have fresh: "openKey opn \<notin> set (map fst store)" using Cons.prems(4) by auto
  have id: "pixelIdOf (pathname (o_request opn)) = i" using Cons.prems(2) by simp
  have keys: "map fst ?s = map fst store @ [openKey opn]"
    using Cons.prems(1) id fresh by (rule openOnce_keys)
  have meta: "loadMeta ?s i = Some ?m"
    using Cons.prems(1) id by (rule openOnce_meta)
  have rest: "\<forall>opn \<in> set opns. pixelIdOf (pathname (o_request opn)) = i"
    using Cons.prems(2) by simp
  have dist: "distinct (map openKey opns)" using Cons.prems(3) by simp
  have disj: "set (map openKey opns) \<inter> set (map fst ?s) = {}"
    using Cons.prems(3,4) by (auto simp: keys)
  have "map fst (openAll opns ?s) = map fst ?s @ map openKey opns"
    using meta rest dist disj by (rule Cons.IH)
  then show ?case by (simp add: keys)
qed

lemma openKey_prefix:
  "pixelIdOf (pathname (o_request opn)) = i \<Longrightarrow> prefix (eventKeyPrefix i) (openKey opn)"
  using eventKey_prefix by (auto simp: openKey_def)

lemma eventKeys_empty: "eventKeys store i = [] \<Longrightarrow> prefix (eventKeyPrefix i) k \<Longrightarrow> k \<notin> set (map fst store)"
  by (auto simp: eventKeys_def filter_empty_conv)

lemma openAll_eventKeys:
  assumes "loadMeta store i = Some m"
    "\<forall>opn \<in> set opns. pixelIdOf (pathname (o_request opn)) = i"
    "distinct (map openKey opns)"
    "eventKeys store i = []"
  shows "eventKeys (openAll opns store) i = map openKey opns"
proof -
  have pre: "\<forall>k \<in> set (map openKey opns). prefix (eventKeyPrefix i) k"
    using assms(2) by (auto simp: openKey_prefix)
  then have "set (map openKey opns) \<inter> set (map fst store) = {}"
    using eventKeys_empty [OF assms(4)] by blast
  with assms(1-3) have "map fst (openAll opns store) = map fst store @ map openKey opns"
    by (rule openAll_keys)
  then have "eventKeys (openAll opns store) i
      = eventKeys store i @ filter (prefix (eventKeyPrefix i)) (map openKey opns)"
    by (simp add: eventKeys_def)
  also have "filter (prefix (eventKeyPrefix i)) (map openKey opns) = map openKey opns"
    using pre by (simp add: filter_id_conv)
  finally show ?thesis by (simp add: assms(4))
qed

lemma sample_open_facts:
  "loadMeta sampleStore (js ''ab'') = Some sampleMeta"
  "openCount sampleMeta = 0"
  "eventKeys sampleStore (js ''ab'') = []"
  "pixelIdOf (pathname (o_request sampleOpen)) = js ''ab''"
  "pixelIdOf (pathname (o_request (sampleOpen\<lparr> o_ms := 2002 \<rparr>))) = js ''ab''"
  by (simp_all add: eval_defs eventKeys_def sampleOpen_def)

lemma sample_random: "randomHex 3 (\<lambda>i. 7) = js ''070707''"
  by code_simp

lemma sample_millis: "numberToString 2001 = js ''2001''" "numberToString 2002 = js ''2002''"
  by (simp_all add: numberToString_def digits.simps js_def)

lemma sample_open_keys:
  "openKey sampleOpen = js ''events:ab:2001-070707''"
  "openKey (sampleOpen\<lparr> o_ms := 2002 \<rparr>) = js ''events:ab:2002-070707''"
  using sample_open_facts(4)
  by (simp_all add: openKey_def sampleOpen_def eventKey_def sample_random sample_millis
      eventKeyPrefix_def js_def)

lemma sample_repeat_count:
  "map_option openCount (loadMeta (openAll (replicate k sampleOpen) sampleStore) (js ''ab''))
   = Some (min k (2 ^ 53))"
proof -
  have "\<forall>opn \<in> set (replicate k sampleOpen). pixelIdOf (pathname (o_request opn)) = js ''ab''"
    by (simp add: sample_open_facts)
  from openAll_count [OF sample_open_facts(1) this]
  show ?thesis by (simp add: sample_open_facts plusOne_funpow_sat)
qed

lemma sample_twice_keys:
  "eventKeys (openAll [sampleOpen, sampleOpen] sampleStore) (js ''ab'')
   = [js ''events:ab:2001-070707'']"
proof -
  have s1: "map fst (openOnce sampleOpen sampleStore) = [js ''meta:ab'', js ''events:ab:2001-070707'']"
    using openOnce_keys [OF sample_open_facts(1) sample_open_facts(4)]
    by (simp add: sample_open_keys sampleStore_def js_def)
  obtain m1 where m1: "loadMeta (openOnce sampleOpen sampleStore) (js ''ab'') = Some m1"
    using openOnce_meta [OF sample_open_facts(1,4)] by blast
  have "openOnce sampleOpen (openOnce sampleOpen sampleStore)
      = kv_put (kv_put (openOnce sampleOpen sampleStore) (openKey sampleOpen)
          (StoredEvent (buildEventRecord (o_now sampleOpen) (o_request sampleOpen))))
          (metaKey (js ''ab''))
          (StoredMeta (stringifiedMeta
             (m1\<lparr> openCount := plusOne (openCount m1), lastOpenedAt := Some (o_now sampleOpen) \<rparr>)))"
    using openOnce_eq [of "openOnce sampleOpen sampleStore" sampleOpen] m1
    by (simp only: sample_open_facts(4))
  then have "map fst (openOnce sampleOpen (openOnce sampleOpen sampleStore))
      = [js ''meta:ab'', js ''events:ab:2001-070707'']"
    using s1 by (simp add: kv_put_def update_keys sample_open_keys metaKey_def js_def)
  then show ?thesis
    by (simp add: eventKeys_def eventKeyPrefix_def js_def)
qed

lemma sample_twice_count:
  "map_option openCount (loadMeta (openAll [sampleOpen, sampleOpen] sampleStore) (js ''ab''))
   = Some 2"
proof -
  have r: "replicate 2 sampleOpen = [sampleOpen, sampleOpen]" by (simp add: numeral_2_eq_2)
  have m: "min 2 (2 ^ 53) = (2 :: nat)" by simp
  show ?thesis using sample_repeat_count [of 2] unfolding r m .
qed

lemma sample_saturated_count:
  "map_option openCount
     (loadMeta (openAll (replicate (2 ^ 53 + 1) sampleOpen) sampleStore) (js ''ab''))
   = Some (2 ^ 53)"
proof -
  have m: "min (2 ^ 53 + 1) (2 ^ 53) = (2 ^ 53 :: nat)" by simp
  show ?thesis using sample_repeat_count [of "2 ^ 53 + 1"] unfolding m .
qed


text \<open>
  Claim C2, as stated, fails. The key of an event is the event prefix of the pixel, then
  \<^verbatim>\<open>Date.now()\<close>, then three random bytes: two opens of a fresh pixel that read the same
  millisecond and draw the same bytes write the same key, the second event replaces the
  first, and the store holds one event record while \<open>openCount\<close> is 2. And \<open>openCount\<close> is a
  JavaScript number: it stops at \<open>2^53\<close>, also after one open more.
\<close>

theorem colliding_opens_counterexample:
  "loadMeta sampleStore (js ''ab'') = Some sampleMeta \<and> openCount sampleMeta = 0
   \<and> eventKeys sampleStore (js ''ab'') = []
   \<and> pixelIdOf (pathname (o_request sampleOpen)) = js ''ab''
   \<and> eventKeys (openAll [sampleOpen, sampleOpen] sampleStore) (js ''ab'')
       = [js ''events:ab:2001-070707'']
   \<and> map_option openCount (loadMeta (openAll [sampleOpen, sampleOpen] sampleStore) (js ''ab''))
       = Some 2
   \<and> map_option openCount
        (loadMeta (openAll (replicate (2 ^ 53 + 1) sampleOpen) sampleStore) (js ''ab''))
       = Some (2 ^ 53)"
  by (intro conjI sample_open_facts sample_twice_keys sample_twice_count sample_saturated_count)

text \<open>
  Claim C2, amended. Starting from a pixel with stored metadata, \<open>openCount\<close> 0 and no key
  under its event prefix, \<open>N\<close> opens of that pixel in sequence, for \<open>N\<close> up to \<open>2^53\<close>, leave
  the stored \<open>openCount\<close> equal to \<open>N\<close>; and when the event keys of the \<open>N\<close> opens (the
  millisecond and the random bytes of each) are pairwise distinct, the keys under the
  event prefix of the pixel are exactly those \<open>N\<close> keys, in the order of the opens: \<open>N\<close>
  distinct event records.
\<close>

theorem sequential_opens_counted:
  "loadMeta store i = Some m \<and> openCount m = 0 \<and> eventKeys store i = []
   \<and> (\<forall>opn \<in> set opns. pixelIdOf (pathname (o_request opn)) = i)
   \<and> length opns \<le> 2 ^ 53
   \<longrightarrow>
     map_option openCount (loadMeta (openAll opns store) i) = Some (length opns)
     \<and> (distinct (map openKey opns) \<longrightarrow>
          eventKeys (openAll opns store) i = map openKey opns
          \<and> length (eventKeys (openAll opns store) i) = length opns
          \<and> distinct (eventKeys (openAll opns store) i))"
  using openAll_count [of store i m opns] openAll_eventKeys [of store i m opns]
    plusOne_funpow [of "length opns"]
  by auto

theorem sequential_opens_counted_witness:
  "(loadMeta sampleStore (js ''ab'') = Some sampleMeta \<and> openCount sampleMeta = 0
     \<and> eventKeys sampleStore (js ''ab'') = []
     \<and> pixelIdOf (pathname (o_request sampleOpen)) = js ''ab''
     \<and> pixelIdOf (pathname (o_request (sampleOpen\<lparr> o_ms := 2002 \<rparr>))) = js ''ab''
     \<and> length [sampleOpen, sampleOpen\<lparr> o_ms := 2002 \<rparr>] \<le> 2 ^ 53
     \<and> distinct (map openKey [sampleOpen, sampleOpen\<lparr> o_ms := 2002 \<rparr>]))
   \<and> map_option openCount
        (loadMeta (openAll [sampleOpen, sampleOpen\<lparr> o_ms := 2002 \<rparr>] sampleStore) (js ''ab''))
       = Some (length [sampleOpen, sampleOpen\<lparr> o_ms := 2002 \<rparr>])
   \<and> eventKeys (openAll [sampleOpen, sampleOpen\<lparr> o_ms := 2002 \<rparr>] sampleStore) (js ''ab'')
       = map openKey [sampleOpen, sampleOpen\<lparr> o_ms := 2002 \<rparr>]
   \<and> length (eventKeys (openAll [sampleOpen, sampleOpen\<lparr> o_ms := 2002 \<rparr>] sampleStore) (js ''ab''))
       = length [sampleOpen, sampleOpen\<lparr> o_ms := 2002 \<rparr>]
   \<and> distinct (eventKeys (openAll [sampleOpen, sampleOpen\<lparr> o_ms := 2002 \<rparr>] sampleStore) (js ''ab''))"
  (is "?H \<and> _")
proof -
  let ?opns = "[sampleOpen, sampleOpen\<lparr> o_ms := 2002 \<rparr>]"
  have d: "distinct (map openKey ?opns)"
    by (simp add: sample_open_keys js_def)
  have h: "?H"
    using d by (simp add: sample_open_facts)
  have b: "\<forall>opn \<in> set ?opns. pixelIdOf (pathname (o_request opn)) = js ''ab''"
    by (simp add: sample_open_facts)
  from sequential_opens_counted [of sampleStore "js ''ab''" sampleMeta ?opns] h b
  show ?thesis by blast
qed

end
